theory Spec2Isabelle
  imports Complex_Main "HOL-Library.Word" "HOL-Library.Sublist"
begin

section \<open>JavaScript values used by the rewrite service\<close>

text \<open>
  The module \<^verbatim>\<open>server/services/recursiveObjectionProofRewrite.ts\<close> is embedded
  function by function.  A JavaScript string is a sequence of UTF-16 code units, so
  that the regular expression class \<^verbatim>\<open>\s\<close> and \<^verbatim>\<open>trim\<close> see the same
  characters as the program does.  A JavaScript number is modelled by the real number
  that it stands for; \<^verbatim>\<open>NaN\<close> and the infinities are left out.  The quotients of
  the chunk loop are taken exactly; the products with the literals \<^verbatim>\<open>0.9\<close> and
  \<^verbatim>\<open>1.1\<close> are rounded as the doubles they are (\<open>js_times\<close> below), since
  \<^verbatim>\<open>Math.round\<close> is applied to them.
\<close>

type_synonym jschar = "16 word"
type_synonym jsstring = "jschar list"
type_synonym number = real

definition js :: "string \<Rightarrow> jsstring" where
  "js s = map (\<lambda>c. of_nat (of_char c)) s"

text \<open>The characters matched by \<^verbatim>\<open>\s\<close> (white space and line terminators).\<close>

definition is_ws :: "jschar \<Rightarrow> bool" where
  "is_ws c \<longleftrightarrow>
     c = 0x9 \<or> c = 0xA \<or> c = 0xB \<or> c = 0xC \<or> c = 0xD \<or> c = 0x20 \<or> c = 0xA0 \<or>
     c = 0x1680 \<or> (0x2000 \<le> c \<and> c \<le> 0x200A) \<or> c = 0x2028 \<or> c = 0x2029 \<or>
     c = 0x202F \<or> c = 0x205F \<or> c = 0x3000 \<or> c = 0xFEFF"

text \<open>
  \<^verbatim>\<open>text.split(/\s+/)\<close>: the pieces between maximal runs of white space, the empty
  pieces at both ends included (\<^verbatim>\<open>"".split(/\s+/)\<close> is \<^verbatim>\<open>[""]\<close>).
  The first argument is the piece being read.
\<close>

function split_ws :: "jsstring \<Rightarrow> jsstring \<Rightarrow> jsstring list" where
  "split_ws cur [] = [cur]"
| "split_ws cur (c # cs) =
     (if is_ws c then cur # split_ws [] (dropWhile is_ws cs)
      else split_ws (cur @ [c]) cs)"
  by pat_completeness auto
termination
  by (relation "measure (\<lambda>(cur, cs). length cs)")
     (auto simp: length_dropWhile_le less_Suc_eq_le)

text \<open>\<^verbatim>\<open>text.split(/\s+/).filter((w) => w.length > 0).length\<close>\<close>

definition countWords :: "jsstring \<Rightarrow> nat" where
  "countWords text = length (filter (\<lambda>w. length w > 0) (split_ws [] text))"

text \<open>\<^verbatim>\<open>String.prototype.trim\<close>\<close>

definition js_trim :: "jsstring \<Rightarrow> jsstring" where
  "js_trim s = rev (dropWhile is_ws (rev (dropWhile is_ws s)))"

text \<open>\<^verbatim>\<open>Math.ceil\<close>, \<^verbatim>\<open>Math.floor\<close> and \<^verbatim>\<open>Math.round\<close> (halves round up).\<close>

definition js_ceil :: "number \<Rightarrow> number" where
  "js_ceil x = of_int \<lceil>x\<rceil>"

definition js_floor :: "number \<Rightarrow> number" where
  "js_floor x = of_int \<lfloor>x\<rfloor>"

definition js_round :: "number \<Rightarrow> number" where
  "js_round x = of_int \<lfloor>x + 1 / 2\<rfloor>"

text \<open>
  The product of two doubles is the exact product rounded to the nearest double, ties
  to the even significand.  A double other than zero is a multiple of two to the
  power \<open>e - 52\<close>, where two to the power \<open>e\<close> is the largest power of two that
  is not above its magnitude, and \<open>e\<close> is at least -1022.  The literals
  \<^verbatim>\<open>0.9\<close> and \<^verbatim>\<open>1.1\<close> denote the doubles nearest to nine and eleven
  tenths.
\<close>

function bit_length :: "nat \<Rightarrow> nat" where
  "bit_length n = (if n = 0 then 0 else Suc (bit_length (n div 2)))"
  by pat_completeness auto
termination
  by (relation "measure id") auto

definition pow2 :: "int \<Rightarrow> real" where
  "pow2 k = (if 0 \<le> k then 2 ^ nat k else 1 / 2 ^ nat (- k))"

definition double_exponent :: "real \<Rightarrow> int" where
  "double_exponent a =
     max (- 1022)
       (if 1 \<le> a then int (bit_length (nat \<lfloor>a\<rfloor>)) - 1
        else - int (bit_length (nat (\<lceil>1 / a\<rceil> - 1))))"

definition round_half_even :: "real \<Rightarrow> int" where
  "round_half_even y =
     (let f = \<lfloor>y\<rfloor>; d = y - of_int f
      in if d < 1 / 2 then f else if 1 / 2 < d then f + 1 else if even f then f else f + 1)"

definition to_double :: "real \<Rightarrow> number" where
  "to_double x =
     (if x = 0 then 0
      else (let a = \<bar>x\<bar>; q = pow2 (double_exponent a - 52)
            in sgn x * of_int (round_half_even (a / q)) * q))"

definition js_times :: "number \<Rightarrow> number \<Rightarrow> number" where
  "js_times x y = to_double (x * y)"

definition lit_0_9 :: number where
  "lit_0_9 = to_double (9 / 10)"

definition lit_1_1 :: number where
  "lit_1_1 = to_double (11 / 10)"

text \<open>Decimal rendering of a non-negative integer inside a template literal.\<close>

definition digit_char :: "nat \<Rightarrow> jschar" where
  "digit_char d = of_nat (48 + d)"

function show_nat :: "nat \<Rightarrow> jsstring" where
  "show_nat n = (if n < 10 then [digit_char n] else show_nat (n div 10) @ [digit_char (n mod 10)])"
  by pat_completeness auto
termination
  by (relation "measure id") auto

text \<open>
  Truthiness, for the operators \<^verbatim>\<open>||\<close> and \<^verbatim>\<open>?:\<close>: an absent value, the
  empty string and the number zero are falsy.
\<close>

definition or_null_string :: "jsstring option \<Rightarrow> jsstring option" where
  "or_null_string v = (case v of None \<Rightarrow> None | Some s \<Rightarrow> if s = [] then None else Some s)"

definition or_null_number :: "number option \<Rightarrow> number option" where
  "or_null_number v = (case v of None \<Rightarrow> None | Some x \<Rightarrow> if x = 0 then None else Some x)"

section \<open>Data model\<close>

datatype status = Processing | Completed | Failed

record 'skel iteration =
  iter_id :: jsstring
  parentId :: "jsstring option"
  version :: nat
  inputText :: jsstring
  outputText :: jsstring
  wordCount :: nat
  targetWordCount :: "number option"
  customInstructions :: "jsstring option"
  globalSkeleton :: "'skel option"
  status :: status
  createdAt :: nat

datatype LengthMode =
  heavy_compression | moderate_compression | maintain | moderate_expansion | heavy_expansion

record LengthConfig =
  targetMin :: number
  targetMax :: number
  targetMid :: number
  lengthRatio :: number
  lengthMode :: LengthMode
  chunkTargetWords :: number

section \<open>The iteration store\<close>

text \<open>
  \<^verbatim>\<open>const iterationStore: IterationStore = {}\<close> is a plain object.  Its own
  properties are the registered iterations; a read \<^verbatim>\<open>iterationStore[key]\<close> that
  finds no own property continues in \<^verbatim>\<open>Object.prototype\<close> and yields the member
  of that name when there is one.  Such a member is a function (or, for
  \<^verbatim>\<open>__proto__\<close>, the prototype object): it is truthy and has neither a
  \<^verbatim>\<open>parentId\<close> nor a \<^verbatim>\<open>version\<close> property.
\<close>

type_synonym 'skel store = "jsstring \<rightharpoonup> 'skel iteration"

datatype 'skel stored = Own "'skel iteration" | Inherited jsstring

definition object_prototype_keys :: "string list" where
  "object_prototype_keys =
     [''constructor'', ''__defineGetter__'', ''__defineSetter__'', ''hasOwnProperty'',
      ''__lookupGetter__'', ''__lookupSetter__'', ''isPrototypeOf'',
      ''propertyIsEnumerable'', ''toString'', ''valueOf'', ''__proto__'',
      ''toLocaleString'']"

definition store_get :: "'skel store \<Rightarrow> jsstring \<Rightarrow> 'skel stored option" where
  "store_get st k =
     (case st k of
        Some it \<Rightarrow> Some (Own it)
      | None \<Rightarrow> if k \<in> set (map js object_prototype_keys) then Some (Inherited k) else None)"

text \<open>\<^verbatim>\<open>current.parentId\<close> and \<^verbatim>\<open>?.version\<close> of a value read from the store.\<close>

fun stored_parentId :: "'skel stored \<Rightarrow> jsstring option" where
  "stored_parentId (Own it) = parentId it"
| "stored_parentId (Inherited k) = None"

fun stored_version :: "'skel stored option \<Rightarrow> nat option" where
  "stored_version None = None"
| "stored_version (Some (Own it)) = Some (version it)"
| "stored_version (Some (Inherited k)) = None"

text \<open>\<^verbatim>\<open>getIteration\<close>: \<^verbatim>\<open>iterationStore[id] || null\<close>.\<close>

definition getIteration :: "'skel store \<Rightarrow> jsstring \<Rightarrow> 'skel stored option" where
  "getIteration st ident = store_get st ident"

text \<open>
  \<^verbatim>\<open>getIterationHistory\<close>.  The \<^verbatim>\<open>while (current)\<close> loop has no bound and no
  set of visited ids, so it is a partial function: \<open>None\<close> is a walk that never
  returns.  \<^verbatim>\<open>history.unshift(current)\<close> puts the value in front.
\<close>

partial_function (option) history_walk ::
  "'skel store \<Rightarrow> 'skel stored option \<Rightarrow> 'skel stored list \<Rightarrow> 'skel stored list option"
where
  "history_walk st current history =
     (case current of
        None \<Rightarrow> Some history
      | Some c \<Rightarrow>
          (case or_null_string (stored_parentId c) of
             Some p \<Rightarrow> history_walk st (store_get st p) (c # history)
           | None \<Rightarrow> Some (c # history)))"

definition getIterationHistory :: "'skel store \<Rightarrow> jsstring \<Rightarrow> 'skel stored list option" where
  "getIterationHistory st currentId = history_walk st (store_get st currentId) []"

text \<open>\<^verbatim>\<open>clearIterationStore\<close> deletes every own key.\<close>

definition clearIterationStore :: "'skel store \<Rightarrow> 'skel store" where
  "clearIterationStore st = (\<lambda>k. if k \<in> dom st then None else st k)"

section \<open>Collaborators\<close>

text \<open>
  The functions imported from \<^verbatim>\<open>./crossChunkCoherence\<close>, the Anthropic client,
  \<^verbatim>\<open>uuidv4\<close> and the clock are not part of the module: they are parameters of
  the model.  A collaborator either returns or throws.  Any value can be thrown: of
  a value other than \<^verbatim>\<open>null\<close> and \<^verbatim>\<open>undefined\<close> the model keeps what
  reading its \<^verbatim>\<open>message\<close> property gives (nothing for a primitive or an object
  without that property); \<^verbatim>\<open>null\<close> and \<^verbatim>\<open>undefined\<close> have no properties
  to read.  Within one call of
  \<^verbatim>\<open>performRecursiveRewrite\<close> no collaborator is called twice with the same
  arguments, so a function of the arguments describes any behaviour of a run.
\<close>

datatype thrown = Thrown "jsstring option" | ThrownNull | ThrownUndefined

record chunk =
  chunk_text :: jsstring

record 'delta reconstructed =
  rc_outputText :: jsstring
  rc_delta :: 'delta

record stitched =
  finalOutput :: jsstring
  contradictions :: "jsstring list"

datatype content_block = TextBlock jsstring | OtherBlock

text \<open>
  \<^verbatim>\<open>messages_create\<close> stands for \<^verbatim>\<open>getAnthropic()\<close> followed by
  \<^verbatim>\<open>anthropic.messages.create\<close> on the prompt that \<^verbatim>\<open>processShortText\<close> builds
  from the text, the target word count and the custom instructions (model,
  \<^verbatim>\<open>max_tokens\<close> and temperature are constants); it yields the \<^verbatim>\<open>content\<close>
  array of the response.
\<close>

record ('skel, 'delta) env =
  uuidv4 :: jsstring
  now :: nat
  parseTargetLength :: "jsstring option \<Rightarrow> thrown + (number \<times> number) option"
  calculateLengthConfig ::
    "nat \<Rightarrow> number option \<Rightarrow> number option \<Rightarrow> jsstring option \<Rightarrow> thrown + LengthConfig"
  messages_create :: "jsstring \<Rightarrow> number \<Rightarrow> jsstring option \<Rightarrow> thrown + content_block list"
  extractGlobalSkeleton :: "jsstring \<Rightarrow> jsstring option \<Rightarrow> thrown + 'skel"
  smartChunk :: "jsstring \<Rightarrow> thrown + chunk list"
  reconstructChunkConstrained ::
    "jsstring \<Rightarrow> nat \<Rightarrow> nat \<Rightarrow> 'skel \<Rightarrow> number \<Rightarrow> LengthConfig \<Rightarrow> thrown + 'delta reconstructed"
  stitchAndValidate :: "'skel \<Rightarrow> (jsstring \<times> 'delta) list \<Rightarrow> thrown + stitched"

text \<open>The progress observer: \<open>Some e\<close> when the call throws \<open>e\<close>.\<close>

type_synonym observer = "jsstring \<Rightarrow> jsstring \<Rightarrow> number \<Rightarrow> thrown option"

record request =
  req_text :: jsstring
  req_targetWordCount :: "number option"
  req_customInstructions :: "jsstring option"
  parentIterationId :: "jsstring option"

datatype coherence = pass | needs_review | short_text

record processingStats =
  inputWords :: nat
  outputWords :: nat
  chunksProcessed :: nat
  coherenceScore :: coherence

record 'skel result =
  success :: bool
  iteration :: "'skel iteration"
  processingStats :: "processingStats option"
  error :: "jsstring option"

section \<open>Effects of a run\<close>

text \<open>
  What a run does besides computing its result is recorded in order: each call of the
  observer, each awaited collaborator call, each pacing timer
  (\<^verbatim>\<open>setTimeout(resolve, 1500)\<close>), the creation of the iteration object, with
  its status, and each assignment to one of its fields, with the status that the
  object has before and the one that it has after the assignment.  A call is recorded
  when it is made, whether it then returns or throws.  Output to the console is left
  out.
\<close>

datatype event =
    Progress jsstring jsstring number
  | Generate
  | ExtractSkeleton
  | Reconstruct jsstring nat nat number
  | Stitch
  | Sleep nat
  | Created status
  | Wrote status status

text \<open>
  The body of the \<^verbatim>\<open>try\<close> block runs on the iteration object and the record of
  events; a throw leaves both as they are at that point.
\<close>

record 'skel run =
  iteration_now :: "'skel iteration"
  events :: "event list"

type_synonym ('a, 'skel) prog = "'skel run \<Rightarrow> (thrown + 'a) \<times> 'skel run"

definition ret :: "'a \<Rightarrow> ('a, 'skel) prog" where
  "ret a s = (Inr a, s)"

definition seq :: "('a, 'skel) prog \<Rightarrow> ('a \<Rightarrow> ('b, 'skel) prog) \<Rightarrow> ('b, 'skel) prog" where
  "seq m f s = (case m s of (Inl e, s') \<Rightarrow> (Inl e, s') | (Inr a, s') \<Rightarrow> f a s')"

definition emit :: "event \<Rightarrow> (unit, 'skel) prog" where
  "emit ev s = (Inr (), s\<lparr>events := events s @ [ev]\<rparr>)"

definition attempt :: "thrown + 'a \<Rightarrow> ('a, 'skel) prog" where
  "attempt r s = (r, s)"

definition await :: "event \<Rightarrow> thrown + 'a \<Rightarrow> ('a, 'skel) prog" where
  "await ev r s = (r, s\<lparr>events := events s @ [ev]\<rparr>)"

text \<open>
  The iteration object is reached in two ways only: it is created, and one of its
  fields is assigned.  Both are recorded, with the status of the object.
\<close>

definition created_run :: "'skel iteration \<Rightarrow> 'skel run" where
  "created_run it = \<lparr>iteration_now = it, events = [Created (status it)]\<rparr>"

definition assign :: "('skel iteration \<Rightarrow> 'skel iteration) \<Rightarrow> (unit, 'skel) prog" where
  "assign f s =
     (Inr (), s\<lparr>iteration_now := f (iteration_now s),
                events := events s @
                  [Wrote (status (iteration_now s)) (status (f (iteration_now s)))]\<rparr>)"

definition current :: "('skel iteration, 'skel) prog" where
  "current s = (Inr (iteration_now s), s)"

text \<open>\<^verbatim>\<open>onProgress?.(phase, message, progress)\<close>\<close>

definition notify :: "observer option \<Rightarrow> jsstring \<Rightarrow> jsstring \<Rightarrow> number \<Rightarrow> (unit, 'skel) prog" where
  "notify onProgress phase msg progress s =
     (case onProgress of
        None \<Rightarrow> (Inr (), s)
      | Some f \<Rightarrow>
          (case f phase msg progress of None \<Rightarrow> Inr () | Some e \<Rightarrow> Inl e,
           s\<lparr>events := events s @ [Progress phase msg progress]\<rparr>))"

section \<open>The rewrite pipeline\<close>

text \<open>
  \<^verbatim>\<open>processShortText\<close>: one generation call; \<^verbatim>\<open>response.content[0].type\<close> on an
  empty \<^verbatim>\<open>content\<close> array is a \<^verbatim>\<open>TypeError\<close>; a first block that is not text
  gives the empty string.
\<close>

definition processShortText ::
  "('skel, 'delta) env \<Rightarrow> jsstring \<Rightarrow> number \<Rightarrow> jsstring option \<Rightarrow> (jsstring, 'skel) prog"
where
  "processShortText env txt targetWords instructions =
     seq (await Generate (messages_create env txt targetWords instructions))
       (\<lambda>content.
          case content of
            [] \<Rightarrow> attempt (Inl (Thrown (Some (js ''Cannot read properties of undefined (reading 'type')''))))
          | b # _ \<Rightarrow> ret (js_trim (case b of TextBlock t \<Rightarrow> t | OtherBlock \<Rightarrow> [])))"

text \<open>
  The \<^verbatim>\<open>for\<close> loop over the chunks, from index \<open>i\<close>, with the chunks processed
  so far and the running word count.
\<close>

function chunk_loop ::
  "('skel, 'delta) env \<Rightarrow> observer option \<Rightarrow> chunk list \<Rightarrow> 'skel \<Rightarrow> LengthConfig \<Rightarrow> nat \<Rightarrow>
   (jsstring \<times> 'delta) list \<Rightarrow> nat \<Rightarrow> ((jsstring \<times> 'delta) list \<times> nat, 'skel) prog"
where
  "chunk_loop env onProgress chunks skeleton lengthConfig i processedChunks runningWordCount =
     (if i < length chunks then
        (let numChunks = length chunks;
             chunkTargetWords = js_ceil (targetMid lengthConfig / real numChunks);
             progress = 20 + js_floor ((real (i + 1) / real numChunks) * 60)
         in seq (notify onProgress (js ''processing'')
                   (js ''Processing chunk '' @ show_nat (i + 1) @ js '' of '' @
                    show_nat numChunks @ js ''...'') progress)
             (\<lambda>_. seq (await (Reconstruct (chunk_text (chunks ! i)) i numChunks chunkTargetWords)
                         (reconstructChunkConstrained env (chunk_text (chunks ! i)) i numChunks
                            skeleton chunkTargetWords lengthConfig))
             (\<lambda>result. seq (if i < length chunks - 1 then emit (Sleep 1500) else ret ())
             (\<lambda>_. chunk_loop env onProgress chunks skeleton lengthConfig (i + 1)
                     (processedChunks @ [(rc_outputText result, rc_delta result)])
                     (runningWordCount + countWords (rc_outputText result))))))
      else ret (processedChunks, runningWordCount))"
  by pat_completeness auto
termination
  by (relation "measure (\<lambda>(env, onProgress, chunks, skeleton, lengthConfig, i, rest). length chunks - i)")
     auto

text \<open>
  The target window: \<^verbatim>\<open>request.targetWordCount ? Math.round(request.targetWordCount * f)
  : parsedTarget?.bound || null\<close>, where \<open>f\<close> is the double \<^verbatim>\<open>0.9\<close> or
  \<^verbatim>\<open>1.1\<close>.
\<close>

definition resolve_bound :: "number option \<Rightarrow> number \<Rightarrow> number option \<Rightarrow> number option" where
  "resolve_bound target factor parsed =
     (case or_null_number target of
        Some t \<Rightarrow> Some (js_round (js_times t factor))
      | None \<Rightarrow> or_null_number parsed)"

text \<open>The short-text branch, lines 96 to 117.\<close>

definition short_text_path ::
  "('skel, 'delta) env \<Rightarrow> request \<Rightarrow> observer option \<Rightarrow> nat \<Rightarrow> LengthConfig \<Rightarrow>
   ('skel result, 'skel) prog"
where
  "short_text_path env request onProgress inWords lengthConfig =
     seq (notify onProgress (js ''processing'') (js ''Processing short text directly...'') 30)
     (\<lambda>_. seq (processShortText env (req_text request) (targetMid lengthConfig)
                 (or_null_string (req_customInstructions request)))
     (\<lambda>output. seq (assign (\<lambda>it. it\<lparr>outputText := output\<rparr>))
     (\<lambda>_. seq (assign (\<lambda>it. it\<lparr>wordCount := countWords output\<rparr>))
     (\<lambda>_. seq (assign (\<lambda>it. it\<lparr>status := Completed\<rparr>))
     (\<lambda>_. seq current
     (\<lambda>it. ret \<lparr>success = True, iteration = it,
                  processingStats =
                    Some \<lparr>inputWords = inWords, outputWords = wordCount it,
                          chunksProcessed = 1, coherenceScore = short_text\<rparr>,
                  error = None\<rparr>))))))"

text \<open>The chunked pipeline, lines 120 to 194.\<close>

definition chunked_path ::
  "('skel, 'delta) env \<Rightarrow> request \<Rightarrow> observer option \<Rightarrow> nat \<Rightarrow> LengthConfig \<Rightarrow>
   ('skel result, 'skel) prog"
where
  "chunked_path env request onProgress inWords lengthConfig =
     seq (notify onProgress (js ''skeleton'') (js ''Extracting global skeleton for coherence...'') 10)
     (\<lambda>_. seq (await ExtractSkeleton
                 (extractGlobalSkeleton env (req_text request)
                    (or_null_string (req_customInstructions request))))
     (\<lambda>skeleton. seq (assign (\<lambda>it. it\<lparr>globalSkeleton := Some skeleton\<rparr>))
     (\<lambda>_. seq (notify onProgress (js ''chunking'') (js ''Chunking text for processing...'') 20)
     (\<lambda>_. seq (attempt (smartChunk env (req_text request)))
     (\<lambda>chunks. seq (chunk_loop env onProgress chunks skeleton lengthConfig 0 [] 0)
     (\<lambda>(processedChunks, runningWordCount).
        seq (notify onProgress (js ''stitching'') (js ''Running global consistency check...'') 85)
     (\<lambda>_. seq (await Stitch (stitchAndValidate env skeleton processedChunks))
     (\<lambda>stitch. seq (notify onProgress (js ''finalizing'') (js ''Finalizing output...'') 95)
     (\<lambda>_. seq (assign (\<lambda>it. it\<lparr>outputText := finalOutput stitch\<rparr>))
     (\<lambda>_. seq (assign (\<lambda>it. it\<lparr>wordCount := countWords (finalOutput stitch)\<rparr>))
     (\<lambda>_. seq (assign (\<lambda>it. it\<lparr>status := Completed\<rparr>))
     (\<lambda>_. seq current
     (\<lambda>it. ret \<lparr>success = True, iteration = it,
                  processingStats =
                    Some \<lparr>inputWords = inWords, outputWords = wordCount it,
                          chunksProcessed = length chunks,
                          coherenceScore =
                            (if length (contradictions stitch) = 0 then pass
                             else needs_review)\<rparr>,
                  error = None\<rparr>)))))))))))))"

text \<open>The body of the \<^verbatim>\<open>try\<close> block, lines 76 to 194.\<close>

definition SHORT_TEXT_THRESHOLD :: nat where
  "SHORT_TEXT_THRESHOLD = 1500"

definition try_block ::
  "('skel, 'delta) env \<Rightarrow> request \<Rightarrow> observer option \<Rightarrow> nat \<Rightarrow> ('skel result, 'skel) prog"
where
  "try_block env request onProgress inWords =
     seq (notify onProgress (js ''initializing'')
            (js ''Starting recursive objection-proof rewrite...'') 0)
     (\<lambda>_. seq (attempt (parseTargetLength env (or_null_string (req_customInstructions request))))
     (\<lambda>parsedTarget.
        seq (attempt (calculateLengthConfig env inWords
               (resolve_bound (req_targetWordCount request) lit_0_9 (map_option fst parsedTarget))
               (resolve_bound (req_targetWordCount request) lit_1_1 (map_option snd parsedTarget))
               (or_null_string (req_customInstructions request))))
     (\<lambda>lengthConfig.
        if inWords < SHORT_TEXT_THRESHOLD
        then short_text_path env request onProgress inWords lengthConfig
        else chunked_path env request onProgress inWords lengthConfig)))"

text \<open>
  The iteration object of lines 57 to 71.  \<^verbatim>\<open>(iterationStore[parent]?.version || 0) + 1\<close>
  reads the store through the prototype chain as every other read does.
\<close>

definition or_zero :: "nat option \<Rightarrow> nat" where
  "or_zero v = (case v of None \<Rightarrow> 0 | Some n \<Rightarrow> if n = 0 then 0 else n)"

definition new_iteration ::
  "('skel, 'delta) env \<Rightarrow> 'skel store \<Rightarrow> request \<Rightarrow> 'skel iteration"
where
  "new_iteration env st request =
     \<lparr>iter_id = uuidv4 env,
      parentId = or_null_string (parentIterationId request),
      version =
        (case or_null_string (parentIterationId request) of
           Some p \<Rightarrow> or_zero (stored_version (store_get st p)) + 1
         | None \<Rightarrow> 1),
      inputText = req_text request,
      outputText = [],
      wordCount = countWords (req_text request),
      targetWordCount = or_null_number (req_targetWordCount request),
      customInstructions = or_null_string (req_customInstructions request),
      globalSkeleton = None,
      status = Processing,
      createdAt = now env\<rparr>"

text \<open>
  \<^verbatim>\<open>error.message || "Processing failed"\<close>.  Reading a property of \<^verbatim>\<open>null\<close>
  or \<^verbatim>\<open>undefined\<close> is a \<^verbatim>\<open>TypeError\<close>.
\<close>

fun error_message :: "thrown \<Rightarrow> thrown + jsstring" where
  "error_message (Thrown m) =
     Inr (case or_null_string m of Some text \<Rightarrow> text | None \<Rightarrow> js ''Processing failed'')"
| "error_message ThrownNull =
     Inl (Thrown (Some (js ''Cannot read properties of null (reading 'message')'')))"
| "error_message ThrownUndefined =
     Inl (Thrown (Some (js ''Cannot read properties of undefined (reading 'message')'')))"

text \<open>
  The \<^verbatim>\<open>catch\<close> block, lines 195 to 206.  The object literal that is returned
  evaluates \<^verbatim>\<open>error.message\<close> last; when that throws, the block ends by the throw.
\<close>

definition catch_block :: "thrown \<Rightarrow> ('skel result, 'skel) prog" where
  "catch_block e =
     seq (assign (\<lambda>it. it\<lparr>status := Failed\<rparr>))
     (\<lambda>_. seq (assign (\<lambda>it. it\<lparr>outputText := []\<rparr>))
     (\<lambda>_. seq current
     (\<lambda>it. seq (attempt (error_message e))
     (\<lambda>msg. ret \<lparr>success = False, iteration = it, processingStats = None,
                   error = Some msg\<rparr>))))"

text \<open>
  \<^verbatim>\<open>performRecursiveRewrite\<close>: how the call ends (\<open>Inr\<close> the result it returns,
  \<open>Inl\<close> the value it rejects with), the store after the call and the record of
  events.  The store holds the iteration object itself, so the entry under the new id
  reads the object's fields as they are when the call ends; the assignments
  \<^verbatim>\<open>iterationStore[iterationId] = iteration\<close> of lines 106, 183 and 199 store the same
  object again.  The assignment creates an own property for every key that
  \<^verbatim>\<open>uuidv4\<close> can return.  One call is taken as a whole: calls that interleave at
  their \<^verbatim>\<open>await\<close> points are not modelled.
\<close>

definition performRecursiveRewrite ::
  "('skel, 'delta) env \<Rightarrow> 'skel store \<Rightarrow> request \<Rightarrow> observer option \<Rightarrow>
   (thrown + 'skel result) \<times> 'skel store \<times> event list"
where
  "performRecursiveRewrite env st request onProgress =
     (let iterationId = uuidv4 env;
          inWords = countWords (req_text request);
          created = new_iteration env st request;
          (outcome, s) =
            (case try_block env request onProgress inWords (created_run created) of
               (Inr result, s) \<Rightarrow> (Inr result, s)
             | (Inl e, s) \<Rightarrow> catch_block e s)
      in (outcome, st(iterationId \<mapsto> iteration_now s), events s))"

section \<open>Identifiers\<close>

text \<open>
  \<^verbatim>\<open>uuidv4()\<close> returns the 36 characters of a UUID: hexadecimal digits in groups of
  8, 4, 4, 4 and 12, separated by hyphens.
\<close>

definition is_hex :: "jschar \<Rightarrow> bool" where
  "is_hex c \<longleftrightarrow> (0x30 \<le> c \<and> c \<le> 0x39) \<or> (0x61 \<le> c \<and> c \<le> 0x66)"

definition is_uuid :: "jsstring \<Rightarrow> bool" where
  "is_uuid s \<longleftrightarrow>
     list_all2 (\<lambda>p c. if p = CHR ''-'' then c = 0x2D else is_hex c)
       ''xxxxxxxx-xxxx-xxxx-xxxx-xxxxxxxxxxxx'' s"

section \<open>Descriptions used by the properties\<close>

subsection \<open>The parent chain of an iteration\<close>

text \<open>
  The chain that \<^verbatim>\<open>getIterationHistory\<close> is meant to return: it ends in the
  iteration itself and is extended at the front by following \<^verbatim>\<open>parentId\<close>, up to
  an iteration without parent or to a parent id for which the store yields nothing.
  A chain is a finite list, so an iteration on a cycle of parents has none.
\<close>

inductive lineage :: "'skel store \<Rightarrow> 'skel iteration \<Rightarrow> 'skel iteration list \<Rightarrow> bool"
  for st :: "'skel store"
where
  root: "or_null_string (parentId it) = None \<Longrightarrow> lineage st it [it]"
| broken: "or_null_string (parentId it) = Some p \<Longrightarrow> store_get st p = None \<Longrightarrow> lineage st it [it]"
| child: "or_null_string (parentId it) = Some p \<Longrightarrow> st p = Some q \<Longrightarrow> lineage st q xs \<Longrightarrow>
          lineage st it (xs @ [it])"

code_pred (modes: i \<Rightarrow> i \<Rightarrow> o \<Rightarrow> bool as lineage_of) lineage .

subsection \<open>The events of a run, in order\<close>

text \<open>
  The events of a run in which nothing throws, written out from the results of the
  collaborators: the notification of a stage (when an observer is given), the events
  of chunk \<open>i\<close>, of the loop from chunk \<open>i\<close> on, of the chunked and of the short
  path, and of the whole \<^verbatim>\<open>try\<close> block, each up to the assignment of the status
  completed, which is the last event of such a run.
\<close>

definition note_events :: "observer option \<Rightarrow> jsstring \<Rightarrow> jsstring \<Rightarrow> number \<Rightarrow> event list" where
  "note_events onProgress phase msg progress =
     (case onProgress of None \<Rightarrow> [] | Some f \<Rightarrow> [Progress phase msg progress])"

definition chunk_message :: "nat \<Rightarrow> nat \<Rightarrow> jsstring" where
  "chunk_message i n =
     js ''Processing chunk '' @ show_nat (i + 1) @ js '' of '' @ show_nat n @ js ''...''"

definition chunk_progress :: "nat \<Rightarrow> nat \<Rightarrow> number" where
  "chunk_progress i n = 20 + js_floor ((real (i + 1) / real n) * 60)"

definition chunk_budget :: "LengthConfig \<Rightarrow> nat \<Rightarrow> number" where
  "chunk_budget lengthConfig n = js_ceil (targetMid lengthConfig / real n)"

definition chunk_events :: "observer option \<Rightarrow> chunk list \<Rightarrow> LengthConfig \<Rightarrow> nat \<Rightarrow> event list" where
  "chunk_events onProgress chunks lengthConfig i =
     note_events onProgress (js ''processing'') (chunk_message i (length chunks))
       (chunk_progress i (length chunks)) @
     [Reconstruct (chunk_text (chunks ! i)) i (length chunks)
        (chunk_budget lengthConfig (length chunks))] @
     (if i < length chunks - 1 then [Sleep 1500] else [])"

definition loop_events :: "observer option \<Rightarrow> chunk list \<Rightarrow> LengthConfig \<Rightarrow> nat \<Rightarrow> event list" where
  "loop_events onProgress chunks lengthConfig i =
     concat (map (chunk_events onProgress chunks lengthConfig) [i..<length chunks])"

text \<open>The call made for chunk \<open>i\<close>, and the pair kept from its result.\<close>

definition reconstruct_call ::
  "('skel, 'delta) env \<Rightarrow> chunk list \<Rightarrow> 'skel \<Rightarrow> LengthConfig \<Rightarrow> nat \<Rightarrow> thrown + 'delta reconstructed"
where
  "reconstruct_call env chunks skeleton lengthConfig i =
     reconstructChunkConstrained env (chunk_text (chunks ! i)) i (length chunks) skeleton
       (chunk_budget lengthConfig (length chunks)) lengthConfig"

definition rebuilt ::
  "('skel, 'delta) env \<Rightarrow> chunk list \<Rightarrow> 'skel \<Rightarrow> LengthConfig \<Rightarrow> nat \<Rightarrow> jsstring \<times> 'delta \<Rightarrow> bool"
where
  "rebuilt env chunks skeleton lengthConfig i p =
     (case reconstruct_call env chunks skeleton lengthConfig i of
        Inl e \<Rightarrow> False
      | Inr r \<Rightarrow> p = (rc_outputText r, rc_delta r))"

text \<open>
  The chunks of the request (none when the chunker throws), the length configuration
  of lines 78 to 91, and the text that the short path produces.
\<close>

definition chunks_of :: "('skel, 'delta) env \<Rightarrow> request \<Rightarrow> chunk list" where
  "chunks_of env request =
     (case smartChunk env (req_text request) of Inl e \<Rightarrow> [] | Inr chunks \<Rightarrow> chunks)"

definition length_config_of :: "('skel, 'delta) env \<Rightarrow> request \<Rightarrow> thrown + LengthConfig" where
  "length_config_of env request =
     (case parseTargetLength env (or_null_string (req_customInstructions request)) of
        Inl e \<Rightarrow> Inl e
      | Inr parsedTarget \<Rightarrow>
          calculateLengthConfig env (countWords (req_text request))
            (resolve_bound (req_targetWordCount request) lit_0_9 (map_option fst parsedTarget))
            (resolve_bound (req_targetWordCount request) lit_1_1 (map_option snd parsedTarget))
            (or_null_string (req_customInstructions request)))"

definition short_output :: "('skel, 'delta) env \<Rightarrow> request \<Rightarrow> LengthConfig \<Rightarrow> jsstring option" where
  "short_output env request lengthConfig =
     (case messages_create env (req_text request) (targetMid lengthConfig)
             (or_null_string (req_customInstructions request)) of
        Inl e \<Rightarrow> None
      | Inr [] \<Rightarrow> None
      | Inr (b # rest) \<Rightarrow> Some (js_trim (case b of TextBlock t \<Rightarrow> t | OtherBlock \<Rightarrow> [])))"

definition chunked_events :: "observer option \<Rightarrow> chunk list \<Rightarrow> LengthConfig \<Rightarrow> event list" where
  "chunked_events onProgress chunks lengthConfig =
     note_events onProgress (js ''skeleton'') (js ''Extracting global skeleton for coherence...'') 10 @
     [ExtractSkeleton, Wrote Processing Processing] @
     note_events onProgress (js ''chunking'') (js ''Chunking text for processing...'') 20 @
     loop_events onProgress chunks lengthConfig 0 @
     note_events onProgress (js ''stitching'') (js ''Running global consistency check...'') 85 @
     [Stitch] @
     note_events onProgress (js ''finalizing'') (js ''Finalizing output...'') 95 @
     [Wrote Processing Processing, Wrote Processing Processing]"

definition short_events :: "observer option \<Rightarrow> event list" where
  "short_events onProgress =
     note_events onProgress (js ''processing'') (js ''Processing short text directly...'') 30 @
     [Generate, Wrote Processing Processing, Wrote Processing Processing]"

definition expected_events :: "('skel, 'delta) env \<Rightarrow> request \<Rightarrow> observer option \<Rightarrow> event list" where
  "expected_events env request onProgress =
     note_events onProgress (js ''initializing'')
       (js ''Starting recursive objection-proof rewrite...'') 0 @
     (case length_config_of env request of
        Inl e \<Rightarrow> []
      | Inr lengthConfig \<Rightarrow>
          if countWords (req_text request) < SHORT_TEXT_THRESHOLD then short_events onProgress
          else chunked_events onProgress (chunks_of env request) lengthConfig)"

text \<open>What a successful run of either path returns, from the iteration as created.\<close>

definition short_outcome ::
  "('skel, 'delta) env \<Rightarrow> request \<Rightarrow> nat \<Rightarrow> LengthConfig \<Rightarrow> 'skel iteration \<Rightarrow>
   'skel result \<Rightarrow> bool"
where
  "short_outcome env request w lc created res \<longleftrightarrow>
     (\<exists>out. short_output env request lc = Some out \<and>
        res = \<lparr>success = True,
                iteration = created\<lparr>outputText := out, wordCount := countWords out,
                              status := Completed\<rparr>,
                processingStats =
                  Some \<lparr>inputWords = w, outputWords = countWords out,
                        chunksProcessed = 1, coherenceScore = short_text\<rparr>,
                error = None\<rparr>)"

definition chunked_outcome ::
  "('skel, 'delta) env \<Rightarrow> request \<Rightarrow> nat \<Rightarrow> LengthConfig \<Rightarrow> 'skel iteration \<Rightarrow>
   'skel result \<Rightarrow> bool"
where
  "chunked_outcome env request w lc created res \<longleftrightarrow>
     (\<exists>sk chunks processed st.
        extractGlobalSkeleton env (req_text request)
          (or_null_string (req_customInstructions request)) = Inr sk \<and>
        smartChunk env (req_text request) = Inr chunks \<and>
        list_all2 (rebuilt env chunks sk lc) [0..<length chunks] processed \<and>
        stitchAndValidate env sk processed = Inr st \<and>
        res = \<lparr>success = True,
                iteration = created\<lparr>globalSkeleton := Some sk, outputText := finalOutput st,
                              wordCount := countWords (finalOutput st), status := Completed\<rparr>,
                processingStats =
                  Some \<lparr>inputWords = w,
                        outputWords = countWords (finalOutput st),
                        chunksProcessed = length chunks,
                        coherenceScore = (if contradictions st = [] then pass else needs_review)\<rparr>,
                error = None\<rparr>)"

text \<open>
  An event is quiet for an observer when it is not a notification on which the
  observer throws.
\<close>

fun quiet :: "observer option \<Rightarrow> event \<Rightarrow> bool" where
  "quiet (Some f) (Progress phase msg progress) = (f phase msg progress = None)"
| "quiet onProgress ev = True"

text \<open>
  Classes of events: those of the chunked pipeline, the pacing timers and those of
  the stitching stage; the statuses recorded by an event, and by a run, in order; and
  the view of a run that keeps only chunk calls and pacing timers.
\<close>

fun chunked_event :: "event \<Rightarrow> bool" where
  "chunked_event ExtractSkeleton = True"
| "chunked_event (Reconstruct txt i n b) = True"
| "chunked_event Stitch = True"
| "chunked_event (Sleep ms) = True"
| "chunked_event ev = False"

fun statuses :: "event \<Rightarrow> status list" where
  "statuses (Created s) = [s]"
| "statuses (Wrote before after) = [before, after]"
| "statuses ev = []"

definition status_trace :: "event list \<Rightarrow> status list" where
  "status_trace evs = concat (map statuses evs)"

fun stitching_event :: "event \<Rightarrow> bool" where
  "stitching_event Stitch = True"
| "stitching_event (Progress phase msg progress) = (phase = js ''stitching'')"
| "stitching_event ev = False"

fun sleep_event :: "event \<Rightarrow> bool" where
  "sleep_event (Sleep ms) = True"
| "sleep_event ev = False"

datatype pacing = Call nat | Pause nat

fun pacing_mark :: "event \<Rightarrow> pacing option" where
  "pacing_mark (Reconstruct txt i n b) = Some (Call i)"
| "pacing_mark (Sleep ms) = Some (Pause ms)"
| "pacing_mark ev = None"

text \<open>\<open>intersperse a xs\<close> puts \<open>a\<close> between every two consecutive elements of \<open>xs\<close>.\<close>

fun intersperse :: "'a \<Rightarrow> 'a list \<Rightarrow> 'a list" where
  "intersperse a [] = []"
| "intersperse a [x] = [x]"
| "intersperse a (x # y # ys) = x # a # intersperse a (y # ys)"

text \<open>
  Every chunk call of a list of events comes directly after the progress notification
  of its chunk; \<open>prev\<close> is the event before the list.
\<close>

fun announced_from :: "event option \<Rightarrow> event list \<Rightarrow> bool" where
  "announced_from prev [] = True"
| "announced_from prev (ev # evs) =
     ((case ev of
         Reconstruct txt i n b \<Rightarrow>
           prev = Some (Progress (js ''processing'') (chunk_message i n) (chunk_progress i n))
       | _ \<Rightarrow> True) \<and>
      announced_from (Some ev) evs)"

section \<open>Sample data\<close>

text \<open>
  Two ids, a configuration, five chunks and a family of collaborators; in
  \<open>demo_env (Some k)\<close> the reconstruction of chunk \<open>k\<close> throws.  \<open>long_text\<close> has
  1500 words.  \<open>failing_observer\<close> throws a value without message at the
  notification of the stitching stage; \<open>undefined_observer\<close> throws
  \<^verbatim>\<open>undefined\<close> at its first call.
\<close>

definition demo_id :: jsstring where
  "demo_id = js ''123e4567-e89b-42d3-a456-426614174000''"

definition demo_parent_id :: jsstring where
  "demo_parent_id = js ''0f8fad5b-d9cb-469f-a165-70867728950e''"

definition demo_config :: LengthConfig where
  "demo_config = \<lparr>targetMin = 2700, targetMax = 3300, targetMid = 3000, lengthRatio = 1,
     lengthMode = maintain, chunkTargetWords = 800\<rparr>"

definition demo_chunks :: "chunk list" where
  "demo_chunks = map (\<lambda>t. \<lparr>chunk_text = js t\<rparr>) [''one'', ''two'', ''three'', ''four'', ''five'']"

definition demo_env :: "nat option \<Rightarrow> (nat, nat) env" where
  "demo_env failing =
     \<lparr>uuidv4 = demo_id,
      now = 0,
      parseTargetLength = (\<lambda>instructions. Inr None),
      calculateLengthConfig = (\<lambda>w lo hi instructions. Inr demo_config),
      messages_create = (\<lambda>txt target instructions. Inr [TextBlock (js '' a stronger text '')]),
      extractGlobalSkeleton = (\<lambda>txt instructions. Inr 7),
      smartChunk = (\<lambda>txt. Inr demo_chunks),
      reconstructChunkConstrained =
        (\<lambda>txt i n skeleton budget config.
           if failing = Some i then Inl (Thrown (Some (js ''overloaded'')))
           else Inr \<lparr>rc_outputText = txt, rc_delta = i\<rparr>),
      stitchAndValidate =
        (\<lambda>skeleton processed.
           Inr \<lparr>finalOutput = concat (map (\<lambda>p. fst p @ js '' '') processed), contradictions = []\<rparr>)\<rparr>"

definition long_text :: jsstring where
  "long_text = concat (replicate 1500 (js ''word ''))"

definition short_request :: request where
  "short_request = \<lparr>req_text = js ''a short text'', req_targetWordCount = None,
     req_customInstructions = None, parentIterationId = None\<rparr>"

definition long_request :: request where
  "long_request = \<lparr>req_text = long_text, req_targetWordCount = Some 3000,
     req_customInstructions = None, parentIterationId = None\<rparr>"

definition quiet_observer :: observer where
  "quiet_observer phase msg progress = None"

definition failing_observer :: observer where
  "failing_observer phase msg progress =
     (if phase = js ''stitching'' then Some (Thrown None) else None)"

definition undefined_observer :: observer where
  "undefined_observer phase msg progress = Some ThrownUndefined"

definition demo_parent :: "nat iteration" where
  "demo_parent = \<lparr>iter_id = demo_parent_id, parentId = None, version = 4,
     inputText = js ''first draft'', outputText = js ''second draft'', wordCount = 2,
     targetWordCount = None, customInstructions = None, globalSkeleton = None,
     status = Completed, createdAt = 0\<rparr>"

definition demo_child :: "nat iteration" where
  "demo_child = \<lparr>iter_id = demo_id, parentId = Some demo_parent_id, version = 5,
     inputText = js ''second draft'', outputText = js ''third draft'', wordCount = 2,
     targetWordCount = None, customInstructions = None, globalSkeleton = None,
     status = Completed, createdAt = 1\<rparr>"

definition child_request :: request where
  "child_request = \<lparr>req_text = js ''second draft'', req_targetWordCount = None,
     req_customInstructions = None, parentIterationId = Some demo_parent_id\<rparr>"

definition self_parent_request :: request where
  "self_parent_request = \<lparr>req_text = js ''a short text'', req_targetWordCount = None,
     req_customInstructions = None, parentIterationId = Some demo_id\<rparr>"

definition inherited_parent_request :: request where
  "inherited_parent_request = \<lparr>req_text = js ''a short text'', req_targetWordCount = None,
     req_customInstructions = None, parentIterationId = Some (js ''constructor'')\<rparr>"

definition inherited_child :: "nat iteration" where
  "inherited_child = \<lparr>iter_id = demo_id, parentId = Some (js ''constructor''), version = 1,
     inputText = js ''a short text'', outputText = js ''a stronger text'', wordCount = 3,
     targetWordCount = None, customInstructions = None, globalSkeleton = None,
     status = Completed, createdAt = 0\<rparr>"

section \<open>The steps of the pipeline\<close>

declare chunk_loop.simps [simp del] show_nat.simps [simp del] bit_length.simps [simp del]

lemma loop_events_step:
  "i < length chunks \<Longrightarrow>
   loop_events obs chunks lc i = chunk_events obs chunks lc i @ loop_events obs chunks lc (Suc i)"
  by (simp add: loop_events_def upt_conv_Cons)

lemma loop_events_done: "\<not> i < length chunks \<Longrightarrow> loop_events obs chunks lc i = []"
  by (simp add: loop_events_def)

lemma chunk_loop_done:
  "\<not> i < length chunks \<Longrightarrow> chunk_loop env obs chunks sk lc i pc rw s = (Inr (pc, rw), s)"
  by (subst chunk_loop.simps) (simp add: ret_def)

lemma seq_cases:
  assumes "seq m f s = (r, s')"
  obtains (throws) e where "m s = (Inl e, s')" "r = Inl e"
        | (returns) a s1 where "m s = (Inr a, s1)" "f a s1 = (r, s')"
  using assms by (auto simp: seq_def split: prod.splits sum.splits)

text \<open>
  A notification adds its event; when it returns, the observer did not throw.
\<close>

lemma notify_run:
  "notify obs ph msg p s = (r, s') \<Longrightarrow>
     s' = s\<lparr>events := events s @ note_events obs ph msg p\<rparr> \<and>
     (\<forall>u. r = Inr u \<longrightarrow> list_all (quiet obs) (note_events obs ph msg p))"
  by (auto simp: notify_def note_events_def split: option.splits)

lemma await_run:
  "await ev x s = (r, s') \<Longrightarrow> x = r \<and> s' = s\<lparr>events := events s @ [ev]\<rparr>"
  by (auto simp: await_def)

lemma quiet_simps [simp]:
  "quiet obs Generate" "quiet obs ExtractSkeleton" "quiet obs (Reconstruct txt i n b)"
  "quiet obs Stitch" "quiet obs (Sleep ms)" "quiet obs (Created q)" "quiet obs (Wrote q q')"
  by (cases obs; simp)+

text \<open>
  The loop leaves the iteration alone; the events it adds are an initial part of the
  loop's events, and all of them when the loop ends normally, in which case no
  notification threw and the list of processed chunks has grown by one pair per chunk,
  in order.  A chunk call that is made and throws ends the loop by that throw.
\<close>

lemma chunk_loop_run:
  "chunk_loop env obs chunks sk lc i pc rw s = (r, s') \<Longrightarrow>
     iteration_now s' = iteration_now s \<and>
     (\<exists>xs. events s' = events s @ xs \<and> prefix xs (loop_events obs chunks lc i) \<and>
           (\<forall>res. r = Inr res \<longrightarrow> xs = loop_events obs chunks lc i \<and>
              list_all (quiet obs) xs \<and>
              (\<exists>ps. fst res = pc @ ps \<and>
                    list_all2 (rebuilt env chunks sk lc) [i..<length chunks] ps)) \<and>
           (\<forall>txt j n b e. Reconstruct txt j n b \<in> set xs \<longrightarrow>
              reconstructChunkConstrained env txt j n sk b lc = Inl e \<longrightarrow> r = Inl e))"
proof (induction env obs chunks sk lc i pc rw arbitrary: s r s' rule: chunk_loop.induct)
  case (1 env obs chunks sk lc i pc rw)
  show ?case
  proof (cases "i < length chunks")
    case False
    with "1.prems" show ?thesis
      by (auto simp add: chunk_loop_done loop_events_done)
  next
    case True
    note step = loop_events_step [OF True, of obs lc]
    let ?n = "length chunks"
    let ?note = "note_events obs (js ''processing'') (chunk_message i ?n) (chunk_progress i ?n)"
    let ?call = "Reconstruct (chunk_text (chunks ! i)) i ?n (chunk_budget lc ?n)"
    let ?pause = "if i < ?n - 1 then [Sleep 1500] else []"
    have ev: "chunk_events obs chunks lc i = ?note @ [?call] @ ?pause"
      by (simp add: chunk_events_def)
    have nonote: "\<And>txt j n b. Reconstruct txt j n b \<notin> set ?note"
      by (simp add: note_events_def split: option.splits)
    from "1.prems" True have
      unf: "seq (notify obs (js ''processing'') (chunk_message i ?n) (chunk_progress i ?n))
             (\<lambda>_. seq (await ?call (reconstruct_call env chunks sk lc i))
             (\<lambda>result. seq (if i < ?n - 1 then emit (Sleep 1500) else ret ())
             (\<lambda>_. chunk_loop env obs chunks sk lc (i + 1)
                     (pc @ [(rc_outputText result, rc_delta result)])
                     (rw + countWords (rc_outputText result))))) s = (r, s')"
      by (subst (asm) chunk_loop.simps)
         (simp add: Let_def chunk_message_def chunk_progress_def chunk_budget_def
            reconstruct_call_def)
    from unf show ?thesis
    proof (cases rule: seq_cases)
      case (throws e)
      from notify_run [OF throws(1)] throws(2) nonote show ?thesis
        by (auto simp: step ev)
    next
      case (returns u s1)
      note n1 = notify_run [OF returns(1)]
      from returns(2) show ?thesis
      proof (cases rule: seq_cases)
        case (throws e)
        from await_run [OF throws(1)] n1 throws(2) nonote show ?thesis
          by (auto simp: step ev reconstruct_call_def chunk_budget_def)
      next
        case (returns result s2)
        note n2 = await_run [OF returns(1)]
        from returns(2) show ?thesis
        proof (cases rule: seq_cases)
          case (throws e)
          then show ?thesis by (auto simp: emit_def ret_def split: if_splits)
        next
          case (returns v s3)
          from returns(1) have n3: "iteration_now s3 = iteration_now s2"
             "events s3 = events s2 @ ?pause"
            by (auto simp: emit_def ret_def split: if_splits)
          from "1.IH" [OF True refl refl refl returns(2)]
          obtain xs where
            a: "iteration_now s' = iteration_now s3" and
            b: "events s' = events s3 @ xs" and
            c: "prefix xs (loop_events obs chunks lc (i + 1))" and
            d: "\<forall>res. r = Inr res \<longrightarrow> xs = loop_events obs chunks lc (i + 1) \<and>
                  list_all (quiet obs) xs \<and>
                  (\<exists>ps. fst res = (pc @ [(rc_outputText result, rc_delta result)]) @ ps \<and>
                    list_all2 (rebuilt env chunks sk lc) [i + 1..<?n] ps)" and
            t: "\<forall>txt j n b e. Reconstruct txt j n b \<in> set xs \<longrightarrow>
                  reconstructChunkConstrained env txt j n sk b lc = Inl e \<longrightarrow> r = Inl e"
            by blast
          have here: "rebuilt env chunks sk lc i (rc_outputText result, rc_delta result)"
            using n2 by (simp add: rebuilt_def)
          have q: "list_all (quiet obs) (chunk_events obs chunks lc i)"
            using n1 by (simp add: ev)
          have "events s' = events s @ (chunk_events obs chunks lc i @ xs)"
            using b n1 n2 n3 by (simp add: ev)
          moreover have "prefix (chunk_events obs chunks lc i @ xs) (loop_events obs chunks lc i)"
            using c by (simp add: step)
          moreover have "\<forall>res. r = Inr res \<longrightarrow>
                  chunk_events obs chunks lc i @ xs = loop_events obs chunks lc i \<and>
                  list_all (quiet obs) (chunk_events obs chunks lc i @ xs) \<and>
                  (\<exists>ps. fst res = pc @ ps \<and> list_all2 (rebuilt env chunks sk lc) [i..<?n] ps)"
          proof (intro allI impI)
            fix res assume "r = Inr res"
            with d obtain ps where
              p: "xs = loop_events obs chunks lc (i + 1)"
                 "list_all (quiet obs) xs"
                 "fst res = (pc @ [(rc_outputText result, rc_delta result)]) @ ps"
                 "list_all2 (rebuilt env chunks sk lc) [i + 1..<?n] ps"
              by blast
            have "list_all2 (rebuilt env chunks sk lc) [i..<?n]
                    ((rc_outputText result, rc_delta result) # ps)"
              using p(4) here True by (simp add: upt_conv_Cons)
            with p q show "chunk_events obs chunks lc i @ xs = loop_events obs chunks lc i \<and>
                  list_all (quiet obs) (chunk_events obs chunks lc i @ xs) \<and>
                  (\<exists>ps. fst res = pc @ ps \<and> list_all2 (rebuilt env chunks sk lc) [i..<?n] ps)"
              by (auto simp: step)
          qed
          moreover have "\<forall>txt j n b e.
              Reconstruct txt j n b \<in> set (chunk_events obs chunks lc i @ xs) \<longrightarrow>
              reconstructChunkConstrained env txt j n sk b lc = Inl e \<longrightarrow> r = Inl e"
            using t n2 nonote
            by (auto simp: ev reconstruct_call_def chunk_budget_def split: if_splits)
          moreover have "iteration_now s' = iteration_now s"
            using a n1 n2 n3 by simp
          ultimately show ?thesis by blast
        qed
      qed
    qed
  qed
qed

lemma notify_returns:
  "notify obs ph msg p s = (Inr u, s') \<Longrightarrow>
     s' = s\<lparr>events := events s @ note_events obs ph msg p\<rparr> \<and>
     list_all (quiet obs) (note_events obs ph msg p)"
  by (auto simp: notify_def note_events_def split: option.splits)

lemma notify_throws:
  "notify obs ph msg p s = (Inl e, s') \<Longrightarrow>
     s' = s\<lparr>events := events s @ note_events obs ph msg p\<rparr>"
  by (auto simp: notify_def note_events_def split: option.splits)

lemma chunk_loop_returns:
  "chunk_loop env obs chunks sk lc 0 [] 0 s = (Inr res, s') \<Longrightarrow>
     iteration_now s' = iteration_now s \<and>
     events s' = events s @ loop_events obs chunks lc 0 \<and>
     list_all (quiet obs) (loop_events obs chunks lc 0) \<and>
     list_all2 (rebuilt env chunks sk lc) [0..<length chunks] (fst res)"
  by (drule chunk_loop_run) auto

lemma chunk_loop_throws:
  "chunk_loop env obs chunks sk lc 0 [] 0 s = (Inl e, s') \<Longrightarrow>
     iteration_now s' = iteration_now s \<and>
     (\<exists>xs. events s' = events s @ xs \<and> prefix xs (loop_events obs chunks lc 0))"
  by (drule chunk_loop_run) auto

lemma assign_run:
  "assign f s = (r, s') \<Longrightarrow>
     r = Inr () \<and> s' = s\<lparr>iteration_now := f (iteration_now s),
                          events := events s @
                            [Wrote (status (iteration_now s)) (status (f (iteration_now s)))]\<rparr>"
  by (auto simp: assign_def)

lemma short_text_path_run:
  assumes "short_text_path env request obs w lc s = (r, s')"
      and "status (iteration_now s) = Processing"
  shows "\<exists>xs. events s' = events s @ xs \<and>
     (case r of
        Inr res \<Rightarrow>
          short_outcome env request w lc (iteration_now s) res \<and>
          iteration_now s' = iteration res \<and>
          xs = short_events obs @ [Wrote Processing Completed] \<and>
          list_all (quiet obs) xs
      | Inl e \<Rightarrow>
          (iteration_now s')\<lparr>globalSkeleton := None\<rparr> =
            (iteration_now s)\<lparr>globalSkeleton := None\<rparr> \<and>
          prefix xs (short_events obs))"
  using assms unfolding short_text_path_def processShortText_def short_outcome_def
  by (auto elim!: seq_cases dest!: notify_returns notify_throws await_run assign_run
         simp: short_events_def short_output_def attempt_def current_def ret_def
         split: list.splits)

lemma chunked_path_run:
  assumes "chunked_path env request obs w lc s = (r, s')"
      and "status (iteration_now s) = Processing"
  shows "\<exists>xs. events s' = events s @ xs \<and>
     (case r of
        Inr res \<Rightarrow>
          chunked_outcome env request w lc (iteration_now s) res \<and>
          iteration_now s' = iteration res \<and>
          xs = chunked_events obs (chunks_of env request) lc @ [Wrote Processing Completed] \<and>
          list_all (quiet obs) xs
      | Inl e \<Rightarrow>
          (iteration_now s')\<lparr>globalSkeleton := None\<rparr> =
            (iteration_now s)\<lparr>globalSkeleton := None\<rparr> \<and>
          prefix xs (chunked_events obs (chunks_of env request) lc))"
  using assms unfolding chunked_path_def chunked_outcome_def
  apply (auto elim!: seq_cases
         dest!: notify_returns notify_throws await_run chunk_loop_returns chunk_loop_throws assign_run
         simp: chunked_events_def chunks_of_def attempt_def current_def ret_def
         split del: if_split)
  apply blast
  done

lemma reconstruct_in_note_events [simp]:
  "Reconstruct txt i n b \<notin> set (note_events obs ph msg p)"
  by (simp add: note_events_def split: option.splits)

lemma prefix_member: "prefix xs ys \<Longrightarrow> x \<in> set xs \<Longrightarrow> x \<in> set ys"
  by (auto simp: prefix_def)

lemma reconstruct_in_short_events [simp]: "Reconstruct txt i n b \<notin> set (short_events obs)"
  by (simp add: short_events_def)

lemma chunk_loop_calls:
  "chunk_loop env obs chunks sk lc 0 [] 0 s = (r, s') \<Longrightarrow>
     \<exists>xs. events s' = events s @ xs \<and>
       (\<forall>txt j n b e. Reconstruct txt j n b \<in> set xs \<longrightarrow>
          reconstructChunkConstrained env txt j n sk b lc = Inl e \<longrightarrow> r = Inl e)"
  by (drule chunk_loop_run) blast

text \<open>
  A chunk call is made only after the skeleton has been extracted, and a chunk call
  that is made and throws ends the chunked path by that throw.
\<close>

lemma chunked_path_chunk_throw:
  assumes "chunked_path env request obs w lc s = (r, s')"
      and "Reconstruct txt j n b \<in> set (events s')"
      and "Reconstruct txt j n b \<notin> set (events s)"
  shows "\<exists>sk. extractGlobalSkeleton env (req_text request)
                 (or_null_string (req_customInstructions request)) = Inr sk \<and>
              (\<forall>e. reconstructChunkConstrained env txt j n sk b lc = Inl e \<longrightarrow> r = Inl e)"
  using assms unfolding chunked_path_def
  by (auto elim!: seq_cases
         dest!: notify_returns notify_throws await_run chunk_loop_calls assign_run
         simp: attempt_def current_def ret_def
         split del: if_split)

lemma try_block_run:
  assumes "try_block env request obs (countWords (req_text request)) s = (r, s')"
      and "status (iteration_now s) = Processing"
  shows "\<exists>xs. events s' = events s @ xs \<and>
     (case r of
        Inr res \<Rightarrow>
          (\<exists>lc. length_config_of env request = Inr lc \<and>
             xs = expected_events env request obs @ [Wrote Processing Completed] \<and>
             list_all (quiet obs) xs \<and>
             iteration_now s' = iteration res \<and>
             (if countWords (req_text request) < SHORT_TEXT_THRESHOLD
              then short_outcome env request (countWords (req_text request)) lc
                     (iteration_now s) res
              else chunked_outcome env request (countWords (req_text request)) lc
                     (iteration_now s) res))
      | Inl e \<Rightarrow>
          (iteration_now s')\<lparr>globalSkeleton := None\<rparr> =
            (iteration_now s)\<lparr>globalSkeleton := None\<rparr> \<and>
          prefix xs (expected_events env request obs))"
proof -
  let ?w = "countWords (req_text request)"
  let ?init = "note_events obs (js ''initializing'')
       (js ''Starting recursive objection-proof rewrite...'') 0"
  from assms(1) show ?thesis
    unfolding try_block_def
  proof (cases rule: seq_cases)
    case (throws e)
    from notify_throws [OF throws(1)] throws(2) show ?thesis
      by (auto simp: expected_events_def)
  next
    case (returns u s1)
    note n1 = notify_returns [OF returns(1)]
    from returns(2) show ?thesis
    proof (cases rule: seq_cases)
      case (throws e)
      then show ?thesis using n1
        by (auto simp: expected_events_def length_config_of_def attempt_def)
    next
      case (returns parsed s2)
      then have p: "parseTargetLength env (or_null_string (req_customInstructions request)) = Inr parsed"
        "s2 = s1" by (auto simp: attempt_def)
      from returns(2) show ?thesis
      proof (cases rule: seq_cases)
        case (throws e)
        then show ?thesis using n1 p
          by (auto simp: expected_events_def length_config_of_def attempt_def)
      next
        case (returns lc s3)
        then have c: "length_config_of env request = Inr lc" "s3 = s1"
          using p by (auto simp: attempt_def length_config_of_def)
        from n1 c assms(2) have st: "status (iteration_now s3) = Processing" by simp
        show ?thesis
        proof (cases "?w < SHORT_TEXT_THRESHOLD")
          case True
          with returns(2) have "short_text_path env request obs ?w lc s3 = (r, s')" by simp
          from short_text_path_run [OF this st] show ?thesis
            using True c n1
            by (cases r) (auto simp: expected_events_def)
        next
          case False
          with returns(2) have "chunked_path env request obs ?w lc s3 = (r, s')" by simp
          from chunked_path_run [OF this st] show ?thesis
            using False c n1
            by (cases r) (auto simp: expected_events_def)
        qed
      qed
    qed
  qed
qed

lemma try_block_chunk_throw:
  assumes "try_block env request obs (countWords (req_text request)) s = (r, s')"
      and "status (iteration_now s) = Processing"
      and "length_config_of env request = Inr lc"
      and "Reconstruct txt j n b \<in> set (events s')"
      and "Reconstruct txt j n b \<notin> set (events s)"
  shows "\<exists>sk. extractGlobalSkeleton env (req_text request)
                 (or_null_string (req_customInstructions request)) = Inr sk \<and>
              (\<forall>e. reconstructChunkConstrained env txt j n sk b lc = Inl e \<longrightarrow> r = Inl e)"
proof -
  let ?w = "countWords (req_text request)"
  from assms(1) show ?thesis
    unfolding try_block_def
  proof (cases rule: seq_cases)
    case (throws e')
    from notify_throws [OF throws(1)] assms(4,5) show ?thesis by simp
  next
    case (returns u s1)
    note n1 = notify_returns [OF returns(1)]
    from returns(2) show ?thesis
    proof (cases rule: seq_cases)
      case (throws e')
      then show ?thesis using n1 assms(4,5) by (auto simp: attempt_def)
    next
      case (returns parsed s2)
      then have p: "parseTargetLength env (or_null_string (req_customInstructions request)) = Inr parsed"
        "s2 = s1" by (auto simp: attempt_def)
      from returns(2) show ?thesis
      proof (cases rule: seq_cases)
        case (throws e')
        then show ?thesis using n1 p assms(4,5) by (auto simp: attempt_def)
      next
        case (returns lc' s3)
        then have c: "lc' = lc" "s3 = s1"
          using p assms(3) by (auto simp: attempt_def length_config_of_def)
        from n1 c assms(2) have st: "status (iteration_now s3) = Processing" by simp
        from n1 c assms(5) have fresh: "Reconstruct txt j n b \<notin> set (events s3)" by simp
        show ?thesis
        proof (cases "?w < SHORT_TEXT_THRESHOLD")
          case True
          with returns(2) have "short_text_path env request obs ?w lc' s3 = (r, s')" by simp
          from short_text_path_run [OF this st] assms(4) fresh show ?thesis
            by (cases r) (auto dest: prefix_member)
        next
          case False
          with returns(2) c have "chunked_path env request obs ?w lc s3 = (r, s')" by simp
          from chunked_path_chunk_throw [OF this assms(4) fresh] show ?thesis .
        qed
      qed
    qed
  qed
qed

subsection \<open>Runs of \<^verbatim>\<open>performRecursiveRewrite\<close>\<close>

lemma frame_fields:
  assumes "(a::'skel iteration)\<lparr>globalSkeleton := None\<rparr> = b\<lparr>globalSkeleton := None\<rparr>"
  shows "a = b\<lparr>globalSkeleton := globalSkeleton a\<rparr>"
proof -
  from assms have "(a\<lparr>globalSkeleton := None\<rparr>)\<lparr>globalSkeleton := globalSkeleton a\<rparr> =
      (b\<lparr>globalSkeleton := None\<rparr>)\<lparr>globalSkeleton := globalSkeleton a\<rparr>"
    by simp
  then show ?thesis by simp
qed

text \<open>
  The \<^verbatim>\<open>catch\<close> block assigns the status and the output text, and then returns the
  failure result or, when the thrown value has no properties, throws.
\<close>

lemma catch_block_run:
  "catch_block e s =
     (case error_message e of
        Inl t \<Rightarrow> Inl t
      | Inr m \<Rightarrow> Inr \<lparr>success = False,
                       iteration = (iteration_now s)\<lparr>status := Failed, outputText := []\<rparr>,
                       processingStats = None, error = Some m\<rparr>,
      s\<lparr>iteration_now := (iteration_now s)\<lparr>status := Failed, outputText := []\<rparr>,
        events := events s @ [Wrote (status (iteration_now s)) Failed, Wrote Failed Failed]\<rparr>)"
  by (simp add: catch_block_def seq_def assign_def current_def attempt_def ret_def
      split: sum.splits)

lemma perform_cases:
  assumes "performRecursiveRewrite env st request obs = (out, st', tr)"
  obtains (returned) res s where
      "try_block env request obs (countWords (req_text request))
         (created_run (new_iteration env st request)) = (Inr res, s)"
      "out = Inr res" "st' = st(uuidv4 env \<mapsto> iteration_now s)" "tr = events s"
    | (caught) e s where
      "try_block env request obs (countWords (req_text request))
         (created_run (new_iteration env st request)) = (Inl e, s)"
      "out = (case error_message e of
                Inl t \<Rightarrow> Inl t
              | Inr m \<Rightarrow> Inr \<lparr>success = False,
                       iteration = (iteration_now s)\<lparr>status := Failed, outputText := []\<rparr>,
                       processingStats = None, error = Some m\<rparr>)"
      "st' = st(uuidv4 env \<mapsto> (iteration_now s)\<lparr>status := Failed, outputText := []\<rparr>)"
      "tr = events s @ [Wrote (status (iteration_now s)) Failed, Wrote Failed Failed]"
proof -
  let ?run = "try_block env request obs (countWords (req_text request))
         (created_run (new_iteration env st request))"
  obtain r s where run: "?run = (r, s)" by (cases ?run)
  show ?thesis
  proof (cases r)
    case (Inr res)
    with assms run show ?thesis
      by (intro returned [of res s]) (auto simp: performRecursiveRewrite_def Let_def)
  next
    case (Inl e)
    with assms run show ?thesis
      by (intro caught [of e s])
         (auto simp: performRecursiveRewrite_def Let_def catch_block_run)
  qed
qed

lemma created_run_simps [simp]:
  "iteration_now (created_run it) = it" "events (created_run it) = [Created (status it)]"
  by (simp_all add: created_run_def)

lemma status_new_iteration [simp]: "status (new_iteration env st request) = Processing"
  by (simp add: new_iteration_def)

lemma perform_success:
  assumes "performRecursiveRewrite env st request obs = (Inr res, st', tr)" and "success res"
  shows "\<exists>lc. length_config_of env request = Inr lc \<and>
           st' = st(uuidv4 env \<mapsto> iteration res) \<and>
           tr = Created Processing # expected_events env request obs @
                  [Wrote Processing Completed] \<and>
           list_all (quiet obs) tr \<and>
           (if countWords (req_text request) < SHORT_TEXT_THRESHOLD
            then short_outcome env request (countWords (req_text request)) lc
                   (new_iteration env st request) res
            else chunked_outcome env request (countWords (req_text request)) lc
                   (new_iteration env st request) res)"
  using assms(1)
proof (cases rule: perform_cases)
  case (returned res' s)
  from try_block_run [OF returned(1)] returned(2-) show ?thesis
    by auto
next
  case (caught e s)
  with assms(2) show ?thesis by (auto split: sum.splits)
qed

lemma perform_failure:
  assumes "performRecursiveRewrite env st request obs = (out, st', tr)"
      and "\<forall>res. out = Inr res \<longrightarrow> \<not> success res"
  shows "\<exists>e s xs it.
           try_block env request obs (countWords (req_text request))
             (created_run (new_iteration env st request)) = (Inl e, s) \<and>
           out = (case error_message e of
                    Inl t \<Rightarrow> Inl t
                  | Inr m \<Rightarrow> Inr \<lparr>success = False, iteration = it,
                                   processingStats = None, error = Some m\<rparr>) \<and>
           st' = st(uuidv4 env \<mapsto> it) \<and>
           tr = Created Processing # xs @ [Wrote Processing Failed, Wrote Failed Failed] \<and>
           prefix xs (expected_events env request obs) \<and>
           it = (new_iteration env st request)\<lparr>globalSkeleton := globalSkeleton it,
                  status := Failed\<rparr>"
  using assms(1)
proof (cases rule: perform_cases)
  case (returned res s)
  from try_block_run [OF returned(1)] have "success res"
    by (auto simp: short_outcome_def chunked_outcome_def split: if_splits)
  with assms(2) returned(2) show ?thesis by simp
next
  case (caught e s)
  from try_block_run [OF caught(1)] obtain xs where
    x: "events s = Created Processing # xs" "prefix xs (expected_events env request obs)"
       "(iteration_now s)\<lparr>globalSkeleton := None\<rparr> =
          (new_iteration env st request)\<lparr>globalSkeleton := None\<rparr>"
    by auto
  define g where "g = globalSkeleton (iteration_now s)"
  define it where "it = (iteration_now s)\<lparr>status := Failed, outputText := []\<rparr>"
  from frame_fields [OF x(3)]
  have eq: "iteration_now s = (new_iteration env st request)\<lparr>globalSkeleton := g\<rparr>"
    by (simp add: g_def)
  have "it = (new_iteration env st request)\<lparr>globalSkeleton := g, status := Failed\<rparr>"
    by (simp add: it_def eq new_iteration_def)
  moreover have "globalSkeleton it = g"
    by (simp add: it_def g_def)
  ultimately have "it = (new_iteration env st request)\<lparr>globalSkeleton := globalSkeleton it,
                  status := Failed\<rparr>"
    by simp
  moreover have "status (iteration_now s) = Processing"
    by (simp add: eq)
  ultimately show ?thesis
    using caught x unfolding it_def [symmetric] by auto
qed

text \<open>
  However the call ends, one iteration is registered under the new id; it is the one
  that a returned result holds, and it keeps the id, the parent and the version with
  which it was created.
\<close>

lemma perform_registers:
  assumes "performRecursiveRewrite env st request obs = (out, st', tr)"
  shows "\<exists>it. st' = st(uuidv4 env \<mapsto> it) \<and>
           (\<forall>res. out = Inr res \<longrightarrow> iteration res = it) \<and>
           iter_id it = uuidv4 env \<and>
           parentId it = or_null_string (parentIterationId request) \<and>
           version it = version (new_iteration env st request) \<and>
           status it = (if \<exists>res. out = Inr res \<and> success res then Completed else Failed)"
proof (cases "\<exists>res. out = Inr res \<and> success res")
  case True
  then obtain res where r: "out = Inr res" "success res" by blast
  from perform_success [OF assms [unfolded r(1)] r(2)] r show ?thesis
    by (auto simp: short_outcome_def chunked_outcome_def new_iteration_def split: if_splits)
next
  case False
  then have "\<forall>res. out = Inr res \<longrightarrow> \<not> success res" by blast
  from perform_failure [OF assms this] obtain e it where
    f: "out = (case error_message e of
                    Inl t \<Rightarrow> Inl t
                  | Inr m \<Rightarrow> Inr \<lparr>success = False, iteration = it,
                                   processingStats = None, error = Some m\<rparr>)"
       "st' = st(uuidv4 env \<mapsto> it)"
       "it = (new_iteration env st request)\<lparr>globalSkeleton := globalSkeleton it,
                  status := Failed\<rparr>"
    by blast
  from f(3) have "iter_id it = uuidv4 env \<and>
           parentId it = or_null_string (parentIterationId request) \<and>
           version it = version (new_iteration env st request) \<and> status it = Failed"
    by (auto simp: new_iteration_def dest: arg_cong [where f = status]
        arg_cong [where f = iter_id] arg_cong [where f = parentId] arg_cong [where f = version])
  with f(1,2) False show ?thesis
    by (auto split: sum.splits)
qed

subsection \<open>Facts about ids\<close>

text \<open>
  An id returned by \<^verbatim>\<open>uuidv4\<close> is not empty and is not the name of a member of
  \<^verbatim>\<open>Object.prototype\<close>; \<^verbatim>\<open>performRecursiveRewrite\<close> is the only writer of
  the registry, so the empty string never becomes a key.
\<close>

lemma is_uuid_nonempty: "is_uuid k \<Longrightarrow> k \<noteq> []"
  by (auto simp: is_uuid_def)

lemma is_uuid_length: "is_uuid k \<Longrightarrow> length k = 36"
  by (auto simp: is_uuid_def dest: list_all2_lengthD)

lemma uuid_not_inherited: "is_uuid k \<Longrightarrow> k \<notin> set (map js object_prototype_keys)"
  by (auto simp: object_prototype_keys_def js_def dest!: is_uuid_length)

lemma empty_key_preserved:
  assumes "performRecursiveRewrite env st request obs = (out, st', tr)"
      and "is_uuid (uuidv4 env)" and "st [] = None"
  shows "st' [] = None"
proof -
  from perform_registers [OF assms(1)] obtain it where "st' = st(uuidv4 env \<mapsto> it)"
    by blast
  with assms(2,3) is_uuid_nonempty [OF assms(2)] show ?thesis by auto
qed

subsection \<open>Facts about the events of a run\<close>

lemma map_filter_append:
  "List.map_filter f (xs @ ys) = List.map_filter f xs @ List.map_filter f ys"
  by (simp add: List.map_filter_def)

lemma map_filter_prefix:
  "prefix xs ys \<Longrightarrow> prefix (List.map_filter f xs) (List.map_filter f ys)"
  by (auto simp: prefix_def map_filter_append)

lemma filter_prefix_empty:
  "prefix xs ys \<Longrightarrow> filter P ys = [] \<Longrightarrow> filter P xs = []"
  by (auto simp: prefix_def)

text \<open>
  Up to the assignment of the status completed, every status recorded in a run in
  which nothing throws is the status processing.
\<close>

lemma status_trace_append [simp]:
  "status_trace (xs @ ys) = status_trace xs @ status_trace ys"
  by (simp add: status_trace_def)

lemma status_trace_Cons [simp]: "status_trace (ev # evs) = statuses ev @ status_trace evs"
  by (simp add: status_trace_def)

lemma status_trace_Nil [simp]: "status_trace [] = []"
  by (simp add: status_trace_def)

lemma status_trace_prefix: "prefix xs ys \<Longrightarrow> prefix (status_trace xs) (status_trace ys)"
  by (auto simp: prefix_def)

lemma status_note_events [simp]: "status_trace (note_events obs ph msg p) = []"
  by (simp add: note_events_def split: option.splits)

lemma status_chunk_events [simp]: "status_trace (chunk_events obs chunks lc i) = []"
  by (simp add: chunk_events_def)

lemma status_loop_events [simp]: "status_trace (loop_events obs chunks lc i) = []"
proof -
  have "status_trace (concat (map (chunk_events obs chunks lc) ks)) = []" for ks
    by (induction ks) simp_all
  then show ?thesis by (simp add: loop_events_def)
qed

lemma status_expected_events:
  "\<exists>k. status_trace (expected_events env request obs) = replicate k Processing"
proof (cases "length_config_of env request")
  case (Inl e)
  then have "status_trace (expected_events env request obs) = replicate 0 Processing"
    by (simp add: expected_events_def)
  then show ?thesis by blast
next
  case (Inr lc)
  show ?thesis
  proof (cases "countWords (req_text request) < SHORT_TEXT_THRESHOLD")
    case True
    with Inr have "status_trace (expected_events env request obs) =
        replicate (Suc (Suc (Suc (Suc 0)))) Processing"
      by (simp add: expected_events_def short_events_def)
    then show ?thesis by blast
  next
    case False
    with Inr have "status_trace (expected_events env request obs) =
        replicate (Suc (Suc (Suc (Suc (Suc (Suc 0)))))) Processing"
      by (simp add: expected_events_def chunked_events_def)
    then show ?thesis by blast
  qed
qed

lemma prefix_replicate:
  assumes "prefix xs (replicate k a)"
  shows "xs = replicate (length xs) a"
proof -
  from assms have "set xs \<subseteq> set (replicate k a)" by (rule set_mono_prefix)
  then have "\<forall>y\<in>set xs. y = a" by auto
  then show ?thesis by (simp add: replicate_length_same)
qed

lemma remdups_adj_same: "remdups_adj (b # replicate j b) = [b]"
  by (induction j) simp_all

lemma remdups_adj_run:
  "a \<noteq> b \<Longrightarrow> remdups_adj (a # replicate k a @ b # replicate j b) = [a, b]"
  by (induction k) (simp_all add: remdups_adj_same)

lemma short_expected_events:
  "countWords (req_text request) < SHORT_TEXT_THRESHOLD \<Longrightarrow>
   filter chunked_event (expected_events env request obs) = [] \<and>
   (\<forall>lc. length_config_of env request = Inr lc \<longrightarrow>
      filter (\<lambda>ev. ev = Generate) (expected_events env request obs) = [Generate])"
  by (simp add: expected_events_def short_events_def note_events_def split: sum.splits option.splits)

lemma marks_note_events [simp]: "List.map_filter pacing_mark (note_events obs ph msg p) = []"
  by (simp add: note_events_def List.map_filter_simps split: option.splits)

lemma marks_chunk_events:
  "List.map_filter pacing_mark (chunk_events obs chunks lc i) =
     Call i # (if i < length chunks - 1 then [Pause 1500] else [])"
  by (simp add: chunk_events_def map_filter_append List.map_filter_simps)

lemma marks_loop_events:
  "List.map_filter pacing_mark (loop_events obs chunks lc i) =
     intersperse (Pause 1500) (map Call [i..<length chunks])"
proof (induction "length chunks - i" arbitrary: i)
  case 0
  then show ?case by (simp add: loop_events_done)
next
  case (Suc k)
  then have lt: "i < length chunks" and k: "k = length chunks - Suc i" by simp_all
  show ?case
  proof (cases "Suc i < length chunks")
    case True
    then have "[Suc i..<length chunks] = Suc i # [Suc (Suc i)..<length chunks]"
      by (simp add: upt_conv_Cons)
    with Suc.hyps(1) [OF k] lt True show ?thesis
      by (simp add: loop_events_step map_filter_append marks_chunk_events upt_conv_Cons)
  next
    case False
    with lt Suc.hyps(1) [OF k] show ?thesis
      by (simp add: loop_events_step map_filter_append marks_chunk_events upt_conv_Cons)
  qed
qed

lemma marks_expected_events:
  assumes "\<not> countWords (req_text request) < SHORT_TEXT_THRESHOLD"
      and "smartChunk env (req_text request) = Inr chunks"
  shows "prefix (List.map_filter pacing_mark (expected_events env request obs))
           (intersperse (Pause 1500) (map Call [0..<length chunks])) \<and>
         (\<forall>lc. length_config_of env request = Inr lc \<longrightarrow>
           List.map_filter pacing_mark (expected_events env request obs) =
             intersperse (Pause 1500) (map Call [0..<length chunks]))"
  using assms
  by (simp add: expected_events_def chunked_events_def chunks_of_def map_filter_append
      marks_loop_events List.map_filter_simps split: sum.splits)

lemma sleeps_are_pauses:
  "length (filter sleep_event evs) =
   length (filter (\<lambda>m. case m of Pause ms \<Rightarrow> True | Call i \<Rightarrow> False) (List.map_filter pacing_mark evs))"
proof (induction evs)
  case Nil
  then show ?case by (simp add: List.map_filter_simps)
next
  case (Cons ev evs)
  then show ?case by (cases ev) (simp_all add: List.map_filter_simps)
qed

lemma pauses_intersperse:
  "length (filter (\<lambda>m. case m of Pause ms \<Rightarrow> True | Call i \<Rightarrow> False)
     (intersperse (Pause d) (map Call ks))) = length ks - 1"
  by (induction ks rule: induct_list012) simp_all

lemma reconstruct_in_loop_events:
  assumes "Reconstruct txt i n b \<in> set (loop_events obs chunks lc k)"
  shows "n = length chunks \<and> i < n \<and> txt = chunk_text (chunks ! i) \<and> b = chunk_budget lc n"
  using assms by (auto simp: loop_events_def chunk_events_def split: if_splits)

lemma reconstruct_in_expected_events:
  assumes "Reconstruct txt i n b \<in> set (expected_events env request obs)"
  shows "\<exists>lc chunks. length_config_of env request = Inr lc \<and>
           smartChunk env (req_text request) = Inr chunks \<and>
           n = length chunks \<and> i < n \<and> txt = chunk_text (chunks ! i) \<and>
           b = chunk_budget lc n"
proof -
  from assms obtain lc where
    lc: "length_config_of env request = Inr lc" and
    m: "Reconstruct txt i n b \<in> set (loop_events obs (chunks_of env request) lc 0)"
    by (cases "length_config_of env request")
       (auto simp: expected_events_def short_events_def chunked_events_def split: if_splits)
  note r = reconstruct_in_loop_events [OF m]
  then have "chunks_of env request \<noteq> []" by auto
  then obtain chunks where "smartChunk env (req_text request) = Inr chunks"
    by (auto simp: chunks_of_def split: sum.splits)
  with r lc show ?thesis by (auto simp: chunks_of_def)
qed

lemma run_events:
  assumes "performRecursiveRewrite env st request obs = (out, st', tr)"
  shows "\<exists>xs ys. tr = Created Processing # xs @ ys \<and>
           prefix xs (expected_events env request obs) \<and>
           (ys = [Wrote Processing Completed] \<or>
            ys = [Wrote Processing Failed, Wrote Failed Failed]) \<and>
           ((\<exists>res. out = Inr res \<and> success res) \<longrightarrow>
              xs = expected_events env request obs \<and> ys = [Wrote Processing Completed]) \<and>
           (\<not> (\<exists>res. out = Inr res \<and> success res) \<longrightarrow>
              ys = [Wrote Processing Failed, Wrote Failed Failed])"
proof (cases "\<exists>res. out = Inr res \<and> success res")
  case True
  then obtain res where r: "out = Inr res" "success res" by blast
  from perform_success [OF assms [unfolded r(1)] r(2)] True show ?thesis
    by (intro exI [of _ "expected_events env request obs"] exI [of _ "[Wrote Processing Completed]"]) auto
next
  case False
  then have "\<forall>res. out = Inr res \<longrightarrow> \<not> success res" by blast
  from perform_failure [OF assms this] obtain xs where
    "tr = Created Processing # xs @ [Wrote Processing Failed, Wrote Failed Failed]"
    "prefix xs (expected_events env request obs)"
    by blast
  with False show ?thesis
    by (intro exI [of _ xs] exI [of _ "[Wrote Processing Failed, Wrote Failed Failed]"]) auto
qed

lemma reconstruct_in_run:
  assumes "performRecursiveRewrite env st request obs = (out, st', tr)"
      and "Reconstruct txt i n b \<in> set tr"
  shows "Reconstruct txt i n b \<in> set (expected_events env request obs)"
proof -
  from run_events [OF assms(1)] obtain xs ys where
    "tr = Created Processing # xs @ ys" "prefix xs (expected_events env request obs)"
    "ys = [Wrote Processing Completed] \<or> ys = [Wrote Processing Failed, Wrote Failed Failed]"
    by blast
  with assms(2) show ?thesis by (auto dest: prefix_member)
qed


lemma announced_note_events [simp]: "announced_from prev (note_events obs ph msg p)"
  by (simp add: note_events_def split: option.splits)








subsection \<open>The target window\<close>

lemma bit_length_0: "bit_length 0 = 0"
  by (subst bit_length.simps) simp

lemma bit_length_pos: "0 < n \<Longrightarrow> bit_length n = Suc (bit_length (n div 2))"
  by (subst bit_length.simps) simp

lemma bit_length_1: "bit_length (Suc 0) = Suc 0"
  by (simp add: bit_length_0 bit_length_pos)

lemma bit_length_27: "bit_length 27 = 5"
  by (simp add: bit_length_0 bit_length_pos)

lemma lit_1_1_value: "lit_1_1 = 4953959590107546 / 2 ^ 52"
proof -
  have e: "double_exponent (11 / 10) = 0"
    by (simp add: double_exponent_def bit_length_1)
  have f: "\<lfloor>(11::real) / 10 * 2 ^ 52\<rfloor> = 4953959590107545"
    by (rule floor_unique) simp_all
  have r: "round_half_even (11 / 10 * 2 ^ 52) = 4953959590107546"
    unfolding round_half_even_def Let_def f by simp
  show ?thesis
    using r by (simp add: lit_1_1_def to_double_def e pow2_def Let_def)
qed

text \<open>
  The product \<^verbatim>\<open>-25 * 1.1\<close> is the double just below -27.5, so that
  \<^verbatim>\<open>Math.round\<close> gives -28, not the -27 of the exact product.
\<close>

lemma resolve_bound_rounds_the_double:
  "resolve_bound (Some (- 25)) lit_1_1 None = Some (- 28)"
proof -
  let ?x = "25 * (4953959590107546 / 2 ^ 52) :: real"
  have e: "double_exponent ?x = 4"
  proof -
    have "\<lfloor>?x\<rfloor> = 27" by (rule floor_unique) simp_all
    then show ?thesis by (simp add: double_exponent_def bit_length_27)
  qed
  have f: "\<lfloor>?x / pow2 (4 - 52)\<rfloor> = 7740561859543040"
    unfolding pow2_def by (rule floor_unique) simp_all
  have r: "round_half_even (?x / pow2 (4 - 52)) = 7740561859543041"
    unfolding round_half_even_def Let_def f by (simp add: pow2_def)
  have "to_double (- 25 * lit_1_1) = - (7740561859543041 / 2 ^ 48)"
    unfolding lit_1_1_value to_double_def Let_def
    using e r by (simp add: pow2_def)
  then have "js_times (- 25) lit_1_1 = - (7740561859543041 / 2 ^ 48)"
    by (simp add: js_times_def)
  moreover have "\<lfloor>- (7740561859543041 / 2 ^ 48) + 1 / 2 :: real\<rfloor> = - 28"
    by (rule floor_unique) simp_all
  ultimately show ?thesis
    by (simp add: resolve_bound_def or_null_number_def js_round_def)
qed

subsection \<open>The walk along the parent chain\<close>

lemma history_walk_lineage:
  assumes "lineage st it xs"
  shows "history_walk st (Some (Own it)) history = Some (map Own xs @ history)"
  using assms
proof (induction arbitrary: history rule: lineage.induct)
  case (root it)
  then show ?case by (subst history_walk.simps) simp
next
  case (broken it p)
  then show ?case
    by (subst history_walk.simps) (simp add: history_walk.simps [of st None])
next
  case (child it p q xs)
  have "history_walk st (Some (Own it)) history =
          history_walk st (Some (Own q)) (Own it # history)"
    using child.hyps by (subst history_walk.simps) (simp add: store_get_def)
  with child.IH [of "Own it # history"] show ?case by simp
qed

lemma lineage_shape:
  assumes "lineage st it xs"
  shows "xs \<noteq> [] \<and> last xs = it \<and>
         (or_null_string (parentId (hd xs)) = None \<or>
          (\<exists>p. or_null_string (parentId (hd xs)) = Some p \<and> store_get st p = None)) \<and>
         (\<forall>j. Suc j < length xs \<longrightarrow>
            (\<exists>p. or_null_string (parentId (xs ! Suc j)) = Some p \<and> st p = Some (xs ! j)))"
  using assms
proof (induction rule: lineage.induct)
  case (root it)
  then show ?case by simp
next
  case (broken it p)
  then show ?case by simp
next
  case (child it p q xs)
  then have ne: "xs \<noteq> []" and l: "last xs = q" by simp_all
  have "\<exists>p. or_null_string (parentId ((xs @ [it]) ! Suc j)) = Some p \<and>
            st p = Some ((xs @ [it]) ! j)" if "Suc j < length (xs @ [it])" for j
  proof (cases "Suc j < length xs")
    case True
    with child.IH show ?thesis by (simp add: nth_append)
  next
    case False
    with that have j: "Suc j = length xs" by simp
    then have "(xs @ [it]) ! Suc j = it" by (simp add: nth_append)
    moreover from j have "j = length xs - 1" by simp
    with j ne l have "(xs @ [it]) ! j = q"
      by (simp add: nth_append last_conv_nth)
    ultimately show ?thesis using child.hyps by simp
  qed
  with child.IH ne show ?case by simp
qed

lemma two_generation_history:
  assumes "st r = Some first" and "st c = Some second"
      and "parentId second = Some r" and "r \<noteq> []"
      and "or_null_string (parentId first) = None"
  shows "getIterationHistory st c = Some [Own first, Own second]"
proof -
  have "lineage st first [first]"
    using assms(5) by (rule lineage.root)
  with assms(1,3,4) have "lineage st second ([first] @ [second])"
    by (intro lineage.child [where p = r and q = first]) (simp_all add: or_null_string_def)
  from history_walk_lineage [OF this, of "[]"] assms(2) show ?thesis
    by (simp add: getIterationHistory_def store_get_def)
qed

text \<open>
  A key for which the store yields nothing gives the empty history; a key that is not
  registered but names a member of \<^verbatim>\<open>Object.prototype\<close> gives a history of one
  element, that member.
\<close>

lemma getIterationHistory_unresolved:
  "store_get st ident = None \<Longrightarrow> getIterationHistory st ident = Some []"
  by (simp add: getIterationHistory_def history_walk.simps)

lemma getIterationHistory_inherited:
  assumes "st k = None" and "k \<in> set (map js object_prototype_keys)"
  shows "getIterationHistory st k = Some [Inherited k]"
  using assms
  by (simp add: getIterationHistory_def store_get_def history_walk.simps or_null_string_def)

subsection \<open>The sample runs\<close>

lemma split_ws_block:
  "split_ws [] (js ''word '' @ rest) = js ''word'' # split_ws [] (dropWhile is_ws rest)"
  by (simp add: js_def is_ws_def)

lemma dropWhile_blocks:
  "dropWhile is_ws (concat (replicate n (js ''word ''))) = concat (replicate n (js ''word ''))"
  by (cases n) (simp_all add: js_def is_ws_def)

lemma split_ws_blocks:
  "split_ws [] (concat (replicate n (js ''word ''))) = replicate n (js ''word'') @ [[]]"
  by (induction n) (simp_all add: split_ws_block dropWhile_blocks)

lemma countWords_long_text: "countWords long_text = 1500"
proof -
  have "split_ws [] long_text = replicate 1500 (js ''word'') @ [[]]"
    by (simp only: long_text_def split_ws_blocks)
  then show ?thesis
    by (simp add: countWords_def js_def)
qed

lemma countWords_short: "countWords (js ''a short text'') = 3"
  by (simp add: countWords_def js_def is_ws_def)

lemmas run_simps =
  performRecursiveRewrite_def new_iteration_def try_block_def short_text_path_def
  chunked_path_def processShortText_def catch_block_def created_run_def seq_def notify_def
  await_def attempt_def assign_def current_def emit_def ret_def SHORT_TEXT_THRESHOLD_def
  or_null_string_def or_null_number_def resolve_bound_def or_zero_def store_get_def

lemmas demo_simps =
  demo_env_def demo_chunks_def demo_config_def short_request_def long_request_def
  quiet_observer_def

lemma is_uuid_demo_id: "is_uuid demo_id"
  by (simp add: is_uuid_def demo_id_def js_def is_hex_def)

lemma is_uuid_demo_parent_id: "is_uuid demo_parent_id"
  by (simp add: is_uuid_def demo_parent_id_def js_def is_hex_def)

lemma ids_differ: "demo_parent_id \<noteq> demo_id"
  by (simp add: demo_parent_id_def demo_id_def js_def)

lemma is_uuid_demo_env: "is_uuid (uuidv4 (demo_env failing))"
  by (simp add: demo_env_def is_uuid_demo_id)

lemma run_tuple:
  "performRecursiveRewrite env st request obs =
      (fst (performRecursiveRewrite env st request obs),
       fst (snd (performRecursiveRewrite env st request obs)),
       snd (snd (performRecursiveRewrite env st request obs)))"
  by simp

lemma demo_short_result:
  "fst (performRecursiveRewrite (demo_env None) Map.empty short_request (Some quiet_observer)) =
     Inr \<lparr>success = True,
       iteration = \<lparr>iter_id = demo_id, parentId = None, version = 1,
          inputText = js ''a short text'', outputText = js ''a stronger text'',
          wordCount = 3, targetWordCount = None, customInstructions = None,
          globalSkeleton = None, status = Completed, createdAt = 0\<rparr>,
       processingStats = Some \<lparr>inputWords = 3, outputWords = 3, chunksProcessed = 1,
          coherenceScore = short_text\<rparr>,
       error = None\<rparr>"
  by (simp add: run_simps demo_simps countWords_def js_trim_def js_def is_ws_def)

lemma demo_short_trace:
  "snd (snd (performRecursiveRewrite (demo_env None) Map.empty short_request
               (Some quiet_observer))) =
     [Created Processing,
      Progress (js ''initializing'') (js ''Starting recursive objection-proof rewrite...'') 0,
      Progress (js ''processing'') (js ''Processing short text directly...'') 30,
      Generate,
      Wrote Processing Processing, Wrote Processing Processing,
      Wrote Processing Completed]"
  by (simp add: run_simps demo_simps countWords_short)

lemma demo_long_result:
  "fst (performRecursiveRewrite (demo_env None) Map.empty long_request (Some quiet_observer)) =
     Inr \<lparr>success = True,
       iteration = \<lparr>iter_id = demo_id, parentId = None, version = 1,
          inputText = long_text, outputText = js ''one two three four five '',
          wordCount = 5, targetWordCount = Some 3000, customInstructions = None,
          globalSkeleton = Some 7, status = Completed, createdAt = 0\<rparr>,
       processingStats = Some \<lparr>inputWords = 1500, outputWords = 5, chunksProcessed = 5,
          coherenceScore = pass\<rparr>,
       error = None\<rparr>"
  by (simp add: run_simps demo_simps countWords_long_text chunk_loop.simps)
     (simp add: countWords_def js_def is_ws_def)


lemma demo_failing_result:
  "fst (performRecursiveRewrite (demo_env (Some 2)) Map.empty long_request (Some quiet_observer)) =
     Inr \<lparr>success = False,
       iteration = \<lparr>iter_id = demo_id, parentId = None, version = 1,
          inputText = long_text, outputText = [],
          wordCount = 1500, targetWordCount = Some 3000, customInstructions = None,
          globalSkeleton = Some 7, status = Failed, createdAt = 0\<rparr>,
       processingStats = None,
       error = Some (js ''overloaded'')\<rparr>"
  by (simp add: run_simps demo_simps countWords_long_text chunk_loop.simps Let_def js_def)

lemma demo_failing_trace:
  "snd (snd (performRecursiveRewrite (demo_env (Some 2)) Map.empty long_request (Some quiet_observer))) =
     [Created Processing,
      Progress (js ''initializing'') (js ''Starting recursive objection-proof rewrite...'') 0,
      Progress (js ''skeleton'') (js ''Extracting global skeleton for coherence...'') 10,
      ExtractSkeleton,
      Wrote Processing Processing,
      Progress (js ''chunking'') (js ''Chunking text for processing...'') 20,
      Progress (js ''processing'') (js ''Processing chunk 1 of 5...'') 32,
      Reconstruct (js ''one'') 0 5 600, Sleep 1500,
      Progress (js ''processing'') (js ''Processing chunk 2 of 5...'') 44,
      Reconstruct (js ''two'') 1 5 600, Sleep 1500,
      Progress (js ''processing'') (js ''Processing chunk 3 of 5...'') 56,
      Reconstruct (js ''three'') 2 5 600,
      Wrote Processing Failed, Wrote Failed Failed]"
  by (simp add: run_simps demo_simps countWords_long_text chunk_loop.simps Let_def
      js_ceil_def js_floor_def show_nat.simps digit_char_def js_def)

text \<open>
  An observer that throws at the stitching stage: the five chunk calls and the four
  pacing timers have been made when the run is aborted.
\<close>

lemma demo_observer_result:
  "fst (performRecursiveRewrite (demo_env None) Map.empty long_request (Some failing_observer)) =
     Inr \<lparr>success = False,
       iteration = \<lparr>iter_id = demo_id, parentId = None, version = 1,
          inputText = long_text, outputText = [],
          wordCount = 1500, targetWordCount = Some 3000, customInstructions = None,
          globalSkeleton = Some 7, status = Failed, createdAt = 0\<rparr>,
       processingStats = None,
       error = Some (js ''Processing failed'')\<rparr>"
  by (simp add: run_simps demo_simps failing_observer_def countWords_long_text chunk_loop.simps
      Let_def js_def)

lemma demo_observer_trace:
  "snd (snd (performRecursiveRewrite (demo_env None) Map.empty long_request
               (Some failing_observer))) =
     [Created Processing,
      Progress (js ''initializing'') (js ''Starting recursive objection-proof rewrite...'') 0,
      Progress (js ''skeleton'') (js ''Extracting global skeleton for coherence...'') 10,
      ExtractSkeleton,
      Wrote Processing Processing,
      Progress (js ''chunking'') (js ''Chunking text for processing...'') 20,
      Progress (js ''processing'') (js ''Processing chunk 1 of 5...'') 32,
      Reconstruct (js ''one'') 0 5 600, Sleep 1500,
      Progress (js ''processing'') (js ''Processing chunk 2 of 5...'') 44,
      Reconstruct (js ''two'') 1 5 600, Sleep 1500,
      Progress (js ''processing'') (js ''Processing chunk 3 of 5...'') 56,
      Reconstruct (js ''three'') 2 5 600, Sleep 1500,
      Progress (js ''processing'') (js ''Processing chunk 4 of 5...'') 68,
      Reconstruct (js ''four'') 3 5 600, Sleep 1500,
      Progress (js ''processing'') (js ''Processing chunk 5 of 5...'') 80,
      Reconstruct (js ''five'') 4 5 600,
      Progress (js ''stitching'') (js ''Running global consistency check...'') 85,
      Wrote Processing Failed, Wrote Failed Failed]"
  by (simp add: run_simps demo_simps failing_observer_def countWords_long_text chunk_loop.simps
      Let_def js_ceil_def js_floor_def show_nat.simps digit_char_def js_def)

section \<open>Strategy selection and results\<close>

text \<open>
  Claim C1: for every request whose text has fewer than 1500 words,
  \<^verbatim>\<open>performRecursiveRewrite\<close> takes the short-text path, so no event of the chunked
  pipeline occurs in the run; and when the call succeeds, the result has
  \<^verbatim>\<open>processingStats\<close> with \<^verbatim>\<open>chunksProcessed\<close> 1 and
  \<^verbatim>\<open>coherenceScore\<close> \<^verbatim>\<open>"short-text"\<close>, exactly one generation call was made,
  and the iteration, as returned and as registered, has status completed.
\<close>

theorem short_text_result:
  assumes "countWords (req_text request) < 1500"
      and "performRecursiveRewrite env st request onProgress = (out, st', tr)"
      and "is_uuid (uuidv4 env)"
  shows "filter chunked_event tr = [] \<and>
         (\<forall>res. out = Inr res \<and> success res \<longrightarrow>
            processingStats res =
              Some \<lparr>inputWords = countWords (req_text request),
                    outputWords = wordCount (iteration res),
                    chunksProcessed = 1, coherenceScore = short_text\<rparr> \<and>
            status (iteration res) = Completed \<and>
            st' (uuidv4 env) = Some (iteration res) \<and>
            filter (\<lambda>ev. ev = Generate) tr = [Generate])"
proof -
  from assms(1) have short: "countWords (req_text request) < SHORT_TEXT_THRESHOLD"
    by (simp add: SHORT_TEXT_THRESHOLD_def)
  note e = short_expected_events [OF short, of env onProgress]
  from run_events [OF assms(2)] obtain xs ys where
    f: "tr = Created Processing # xs @ ys" "prefix xs (expected_events env request onProgress)"
       "ys = [Wrote Processing Completed] \<or> ys = [Wrote Processing Failed, Wrote Failed Failed]"
    by blast
  from filter_prefix_empty [OF f(2)] e have "filter chunked_event xs = []" by simp
  with f(1,3) have none: "filter chunked_event tr = []" by auto
  have "processingStats res =
              Some \<lparr>inputWords = countWords (req_text request),
                    outputWords = wordCount (iteration res),
                    chunksProcessed = 1, coherenceScore = short_text\<rparr> \<and>
            status (iteration res) = Completed \<and>
            st' (uuidv4 env) = Some (iteration res) \<and>
            filter (\<lambda>ev. ev = Generate) tr = [Generate]"
    if r: "out = Inr res" "success res" for res
  proof -
    from perform_success [OF assms(2) [unfolded r(1)] r(2)] short obtain lc where
      g: "length_config_of env request = Inr lc"
         "st' = st(uuidv4 env \<mapsto> iteration res)"
         "tr = Created Processing # expected_events env request onProgress @
                 [Wrote Processing Completed]"
         "short_outcome env request (countWords (req_text request)) lc
            (new_iteration env st request) res"
      by auto
    from g(4) have "processingStats res =
              Some \<lparr>inputWords = countWords (req_text request),
                    outputWords = wordCount (iteration res),
                    chunksProcessed = 1, coherenceScore = short_text\<rparr>"
       and "status (iteration res) = Completed"
      by (auto simp: short_outcome_def)
    with g e show ?thesis by simp
  qed
  with none show ?thesis by blast
qed

theorem short_text_result_witness:
  "countWords (req_text short_request) < 1500 \<and>
   is_uuid (uuidv4 (demo_env None)) \<and>
   (\<exists>res. fst (performRecursiveRewrite (demo_env None) Map.empty short_request
                  (Some quiet_observer)) = Inr res \<and>
      success res \<and>
      processingStats res =
        Some \<lparr>inputWords = 3, outputWords = 3, chunksProcessed = 1, coherenceScore = short_text\<rparr> \<and>
      status (iteration res) = Completed \<and>
      fst (snd (performRecursiveRewrite (demo_env None) Map.empty short_request
                  (Some quiet_observer))) demo_id = Some (iteration res)) \<and>
   filter chunked_event (snd (snd (performRecursiveRewrite (demo_env None) Map.empty
      short_request (Some quiet_observer)))) = [] \<and>
   filter (\<lambda>ev. ev = Generate) (snd (snd (performRecursiveRewrite (demo_env None) Map.empty
      short_request (Some quiet_observer)))) = [Generate]"
proof -
  have small: "countWords (req_text short_request) < 1500"
    by (simp add: short_request_def countWords_short)
  have ident: "uuidv4 (demo_env None) = demo_id"
    by (simp add: demo_env_def)
  from short_text_result [OF small
      run_tuple [of "demo_env None" Map.empty short_request "Some quiet_observer"]
      is_uuid_demo_env] small is_uuid_demo_env [of None]
  show ?thesis
    by (simp add: demo_short_result ident)
qed

text \<open>
  Claim C2: for every request whose text has at least 1500 words, a successful call
  returns \<^verbatim>\<open>processingStats\<close> whose \<^verbatim>\<open>chunksProcessed\<close> is the length of the
  sequence returned by the chunking collaborator, and whose \<^verbatim>\<open>coherenceScore\<close> is
  \<^verbatim>\<open>"pass"\<close> when the contradiction list returned by the stitching collaborator is
  empty and \<^verbatim>\<open>"needs_review"\<close> otherwise.  The stitching collaborator is the one
  called on the skeleton and on the pairs kept from the chunk reconstructions, in order.
\<close>

theorem chunked_result:
  assumes "1500 \<le> countWords (req_text request)"
      and "performRecursiveRewrite env st request onProgress = (Inr res, st', tr)"
      and "success res"
  shows "\<exists>lc sk chunks processed stitch.
           length_config_of env request = Inr lc \<and>
           extractGlobalSkeleton env (req_text request)
             (or_null_string (req_customInstructions request)) = Inr sk \<and>
           smartChunk env (req_text request) = Inr chunks \<and>
           list_all2 (rebuilt env chunks sk lc) [0..<length chunks] processed \<and>
           stitchAndValidate env sk processed = Inr stitch \<and>
           processingStats res =
             Some \<lparr>inputWords = countWords (req_text request),
                   outputWords = wordCount (iteration res),
                   chunksProcessed = length chunks,
                   coherenceScore = (if contradictions stitch = [] then pass else needs_review)\<rparr>"
proof -
  from assms(1) have long: "\<not> countWords (req_text request) < SHORT_TEXT_THRESHOLD"
    by (simp add: SHORT_TEXT_THRESHOLD_def)
  from perform_success [OF assms(2,3)] long obtain lc where
    f: "length_config_of env request = Inr lc"
       "chunked_outcome env request (countWords (req_text request)) lc
          (new_iteration env st request) res"
    by auto
  from f(2) obtain sk chunks processed sti where
    g: "extractGlobalSkeleton env (req_text request)
          (or_null_string (req_customInstructions request)) = Inr sk"
       "smartChunk env (req_text request) = Inr chunks"
       "list_all2 (rebuilt env chunks sk lc) [0..<length chunks] processed"
       "stitchAndValidate env sk processed = Inr sti"
       "res = \<lparr>success = True,
                iteration = (new_iteration env st request)\<lparr>globalSkeleton := Some sk,
                    outputText := finalOutput sti,
                    wordCount := countWords (finalOutput sti), status := Completed\<rparr>,
                processingStats =
                  Some \<lparr>inputWords = countWords (req_text request),
                        outputWords = countWords (finalOutput sti),
                        chunksProcessed = length chunks,
                        coherenceScore = (if contradictions sti = [] then pass else needs_review)\<rparr>,
                error = None\<rparr>"
    unfolding chunked_outcome_def by blast
  from g(5) have "processingStats res =
             Some \<lparr>inputWords = countWords (req_text request),
                   outputWords = wordCount (iteration res),
                   chunksProcessed = length chunks,
                   coherenceScore = (if contradictions sti = [] then pass else needs_review)\<rparr>"
    by simp
  with f g(1-4) show ?thesis
    by (intro exI [of _ lc] exI [of _ sk] exI [of _ chunks] exI [of _ processed]
        exI [of _ sti]) simp
qed

theorem chunked_result_witness:
  "1500 \<le> countWords (req_text long_request) \<and>
   smartChunk (demo_env None) (req_text long_request) = Inr demo_chunks \<and>
   length demo_chunks = 5 \<and>
   (\<exists>res. performRecursiveRewrite (demo_env None) Map.empty long_request (Some quiet_observer) =
        (Inr res,
         snd (performRecursiveRewrite (demo_env None) Map.empty long_request
                (Some quiet_observer))) \<and>
      success res \<and>
      processingStats res =
        Some \<lparr>inputWords = 1500, outputWords = 5, chunksProcessed = 5, coherenceScore = pass\<rparr> \<and>
      (\<exists>lc sk chunks processed stitch.
         length_config_of (demo_env None) long_request = Inr lc \<and>
         extractGlobalSkeleton (demo_env None) (req_text long_request)
           (or_null_string (req_customInstructions long_request)) = Inr sk \<and>
         smartChunk (demo_env None) (req_text long_request) = Inr chunks \<and>
         list_all2 (rebuilt (demo_env None) chunks sk lc) [0..<length chunks] processed \<and>
         stitchAndValidate (demo_env None) sk processed = Inr stitch \<and>
         processingStats res =
           Some \<lparr>inputWords = countWords (req_text long_request),
                 outputWords = wordCount (iteration res),
                 chunksProcessed = length chunks,
                 coherenceScore = (if contradictions stitch = [] then pass else needs_review)\<rparr>))"
proof -
  let ?run = "performRecursiveRewrite (demo_env None) Map.empty long_request (Some quiet_observer)"
  let ?res = "\<lparr>success = True,
       iteration = \<lparr>iter_id = demo_id, parentId = None, version = 1,
          inputText = long_text, outputText = js ''one two three four five '',
          wordCount = 5, targetWordCount = Some 3000, customInstructions = None,
          globalSkeleton = Some (7::nat), status = Completed, createdAt = 0\<rparr>,
       processingStats = Some \<lparr>inputWords = 1500, outputWords = 5, chunksProcessed = 5,
          coherenceScore = pass\<rparr>,
       error = None\<rparr>"
  have big: "1500 \<le> countWords (req_text long_request)"
    by (simp add: long_request_def countWords_long_text)
  have run: "?run = (Inr ?res, fst (snd ?run), snd (snd ?run))"
    using demo_long_result by (simp add: prod_eq_iff)
  have ok: "success ?res" by simp
  have chunks: "smartChunk (demo_env None) (req_text long_request) = Inr demo_chunks"
    "length demo_chunks = 5"
    by (simp_all add: demo_env_def demo_chunks_def)
  from chunked_result [OF big run ok] big chunks run show ?thesis
    by (intro conjI exI [of _ ?res]) (simp_all add: prod_eq_iff)
qed

section \<open>Failure\<close>

text \<open>
  What the \<^verbatim>\<open>catch\<close> block makes of a run that does not succeed: the iteration is
  registered with status failed and an empty \<^verbatim>\<open>outputText\<close>, whatever chunks had
  been rebuilt before, and otherwise as it was created, but for the skeleton; the
  statuses recorded are processing and then failed.  When the thrown value is other
  than \<^verbatim>\<open>null\<close> and \<^verbatim>\<open>undefined\<close>, the call returns the failure result with
  the message of the thrown value, or \<^verbatim>\<open>"Processing failed"\<close> when it has none or
  an empty one.  When the thrown value is \<^verbatim>\<open>null\<close> or \<^verbatim>\<open>undefined\<close>, the
  call returns nothing: it rejects, with the \<^verbatim>\<open>TypeError\<close> of the \<^verbatim>\<open>catch\<close>
  block.
\<close>

lemma failure_is_caught:
  assumes "performRecursiveRewrite env st request onProgress = (out, st', tr)"
      and "\<not> (\<exists>res. out = Inr res \<and> success res)"
  shows "\<exists>e s it.
           try_block env request onProgress (countWords (req_text request))
             (created_run (new_iteration env st request)) = (Inl e, s) \<and>
           st' = st(uuidv4 env \<mapsto> it) \<and>
           status it = Failed \<and> outputText it = [] \<and> iter_id it = uuidv4 env \<and>
           remdups_adj (status_trace tr) = [Processing, Failed] \<and>
           (case e of
              Thrown m \<Rightarrow>
                out = Inr \<lparr>success = False, iteration = it, processingStats = None,
                           error = Some (case m of
                                           None \<Rightarrow> js ''Processing failed''
                                         | Some text \<Rightarrow>
                                             if text = [] then js ''Processing failed''
                                             else text)\<rparr>
            | ThrownNull \<Rightarrow>
                out = Inl (Thrown (Some (js ''Cannot read properties of null (reading 'message')'')))
            | ThrownUndefined \<Rightarrow>
                out = Inl (Thrown (Some
                        (js ''Cannot read properties of undefined (reading 'message')''))))"
proof -
  from assms(2) have "\<forall>res. out = Inr res \<longrightarrow> \<not> success res" by blast
  from perform_failure [OF assms(1) this] obtain e s xs it where
    f: "try_block env request onProgress (countWords (req_text request))
             (created_run (new_iteration env st request)) = (Inl e, s)"
       "out = (case error_message e of
                    Inl t \<Rightarrow> Inl t
                  | Inr m \<Rightarrow> Inr \<lparr>success = False, iteration = it,
                                   processingStats = None, error = Some m\<rparr>)"
       "st' = st(uuidv4 env \<mapsto> it)"
       "tr = Created Processing # xs @ [Wrote Processing Failed, Wrote Failed Failed]"
       "prefix xs (expected_events env request onProgress)"
       "it = (new_iteration env st request)\<lparr>globalSkeleton := globalSkeleton it,
                  status := Failed\<rparr>"
    by blast
  from f(6) have fields: "status it = Failed \<and> outputText it = [] \<and> iter_id it = uuidv4 env"
    by (auto simp: new_iteration_def dest: arg_cong [where f = status]
        arg_cong [where f = outputText] arg_cong [where f = iter_id])
  from status_expected_events obtain k where
    "status_trace (expected_events env request onProgress) = replicate k Processing"
    by blast
  with status_trace_prefix [OF f(5)]
  have "prefix (status_trace xs) (replicate k Processing)" by simp
  from prefix_replicate [OF this] obtain j where
    "status_trace xs = replicate j Processing" by blast
  with f(4) have "status_trace tr =
      Processing # replicate (Suc j) Processing @ Failed # replicate 2 Failed"
    by (simp add: replicate_app_Cons_same numeral_2_eq_2)
  moreover have "remdups_adj
      (Processing # replicate (Suc j) Processing @ Failed # replicate 2 Failed) =
      [Processing, Failed]"
    by (rule remdups_adj_run) simp
  ultimately have seq: "remdups_adj (status_trace tr) = [Processing, Failed]"
    by simp
  have "case e of
              Thrown m \<Rightarrow>
                out = Inr \<lparr>success = False, iteration = it, processingStats = None,
                           error = Some (case m of
                                           None \<Rightarrow> js ''Processing failed''
                                         | Some text \<Rightarrow>
                                             if text = [] then js ''Processing failed''
                                             else text)\<rparr>
            | ThrownNull \<Rightarrow>
                out = Inl (Thrown (Some (js ''Cannot read properties of null (reading 'message')'')))
            | ThrownUndefined \<Rightarrow>
                out = Inl (Thrown (Some
                        (js ''Cannot read properties of undefined (reading 'message')'')))"
    using f(2) by (cases e) (auto simp: or_null_string_def split: option.splits)
  with f(1,3) fields seq show ?thesis by blast
qed

text \<open>
  Nothing that throws is passed over: in a run that succeeds the length resolution
  and every collaborator on the path returned (\<open>perform_success\<close>), and the
  observer returned at every notification.
\<close>

lemma observer_throw_fails:
  assumes "performRecursiveRewrite env st request (Some f) = (out, st', tr)"
      and "Progress phase msg progress \<in> set tr"
      and "f phase msg progress = Some e"
  shows "\<not> (\<exists>res. out = Inr res \<and> success res)"
proof
  assume "\<exists>res. out = Inr res \<and> success res"
  then obtain res where r: "out = Inr res" "success res" by blast
  from perform_success [OF assms(1) [unfolded r(1)] r(2)]
  have "list_all (quiet (Some f)) tr" by blast
  with assms(2) have "quiet (Some f) (Progress phase msg progress)"
    unfolding list_all_iff by blast
  with assms(3) show False by simp
qed

text \<open>
  Claim C3: for any exception thrown during processing, the call returns
  \<^verbatim>\<open>{success: false, iteration, error: message}\<close>, with the registered iteration
  failed and its \<^verbatim>\<open>outputText\<close> empty.  The code does not do so when the value
  thrown is \<^verbatim>\<open>undefined\<close>: with an observer that throws \<^verbatim>\<open>undefined\<close> at the
  first notification, the \<^verbatim>\<open>catch\<close> block marks the iteration failed and then
  throws itself, on \<^verbatim>\<open>error.message\<close>, so the call returns no result but rejects.
\<close>

theorem failure_rejects_on_undefined:
  "performRecursiveRewrite (demo_env None) Map.empty short_request (Some undefined_observer) =
     (Inl (Thrown (Some (js ''Cannot read properties of undefined (reading 'message')''))),
      [demo_id \<mapsto>
         \<lparr>iter_id = demo_id, parentId = None, version = 1,
           inputText = js ''a short text'', outputText = [],
           wordCount = 3, targetWordCount = None, customInstructions = None,
           globalSkeleton = None, status = Failed, createdAt = 0\<rparr>],
      [Created Processing,
       Progress (js ''initializing'') (js ''Starting recursive objection-proof rewrite...'') 0,
       Wrote Processing Failed, Wrote Failed Failed])"
  by (simp add: run_simps demo_simps undefined_observer_def countWords_short)

section \<open>Lineage\<close>

text \<open>
  Claim C4: the version of the created iteration is the stored version of the parent
  plus one when the request names a parent id that is registered, and 1 when the
  request names no parent or a parent id that is not registered; a returned result
  holds the iteration with that version.  (The empty string is not a key of the
  registry: \<open>empty_key_preserved\<close>.)
\<close>

theorem version_of_new_iteration:
  assumes "performRecursiveRewrite env st request onProgress = (out, st', tr)"
      and "st [] = None"
  shows "version (new_iteration env st request) =
           (case parentIterationId request of
              None \<Rightarrow> 1
            | Some pid \<Rightarrow> (case st pid of None \<Rightarrow> 1 | Some p \<Rightarrow> version p + 1)) \<and>
         (\<forall>res. out = Inr res \<longrightarrow>
            version (iteration res) =
              (case parentIterationId request of
                 None \<Rightarrow> 1
               | Some pid \<Rightarrow> (case st pid of None \<Rightarrow> 1 | Some p \<Rightarrow> version p + 1)))"
proof -
  from perform_registers [OF assms(1)]
  have v: "\<forall>res. out = Inr res \<longrightarrow>
      version (iteration res) = version (new_iteration env st request)"
    by auto
  have "version (new_iteration env st request) =
           (case parentIterationId request of
              None \<Rightarrow> 1
            | Some pid \<Rightarrow> (case st pid of None \<Rightarrow> 1 | Some p \<Rightarrow> version p + 1))"
  proof (cases "parentIterationId request")
    case None
    then show ?thesis by (simp add: new_iteration_def or_null_string_def)
  next
    case (Some pid)
    show ?thesis
    proof (cases "st pid")
      case None
      with Some show ?thesis
        by (simp add: new_iteration_def or_null_string_def store_get_def or_zero_def)
    next
      case (Some p)
      with assms(2) have "pid \<noteq> []" by auto
      with Some \<open>parentIterationId request = Some pid\<close> show ?thesis
        by (simp add: new_iteration_def or_null_string_def store_get_def or_zero_def)
    qed
  qed
  with v show ?thesis by simp
qed

theorem version_of_new_iteration_witness:
  "[demo_parent_id \<mapsto> demo_parent] [] = None \<and>
   version demo_parent = 4 \<and>
   (\<exists>res. fst (performRecursiveRewrite (demo_env None)
      [demo_parent_id \<mapsto> demo_parent] child_request None) = Inr res \<and>
      version (iteration res) = 5) \<and>
   (\<exists>res. fst (performRecursiveRewrite (demo_env None)
      [demo_parent_id \<mapsto> demo_parent] short_request None) = Inr res \<and>
      version (iteration res) = 1) \<and>
   (\<exists>res. fst (performRecursiveRewrite (demo_env None)
      [demo_parent_id \<mapsto> demo_parent] self_parent_request None) = Inr res \<and>
      version (iteration res) = 1)"
proof -
  let ?st = "[demo_parent_id \<mapsto> demo_parent]"
  have e: "?st [] = None"
    using is_uuid_nonempty [OF is_uuid_demo_parent_id] by simp
  have r1: "\<exists>res. fst (performRecursiveRewrite (demo_env None) ?st child_request None) = Inr res"
    by (simp add: run_simps demo_simps child_request_def countWords_def js_def is_ws_def)
  have r2: "\<exists>res. fst (performRecursiveRewrite (demo_env None) ?st short_request None) = Inr res"
    by (simp add: run_simps demo_simps countWords_short)
  have r3: "\<exists>res. fst (performRecursiveRewrite (demo_env None) ?st self_parent_request None) = Inr res"
    by (simp add: run_simps demo_simps self_parent_request_def countWords_short)
  from version_of_new_iteration
         [OF run_tuple [of "demo_env None" ?st child_request None] e]
       version_of_new_iteration
         [OF run_tuple [of "demo_env None" ?st short_request None] e]
       version_of_new_iteration
         [OF run_tuple [of "demo_env None" ?st self_parent_request None] e]
       e r1 r2 r3
  show ?thesis
    by (auto simp: child_request_def short_request_def self_parent_request_def demo_parent_def
        ids_differ [symmetric])
qed

section \<open>The history of an iteration\<close>

text \<open>
  For a registered id whose iteration has a parent chain (a finite one, ending at an
  iteration without parent or at a parent id for which the store yields nothing),
  \<^verbatim>\<open>getIterationHistory\<close> returns that chain: it ends in the iteration with the
  id, each element but the first is registered under the parent id of the next one,
  and the first element has no parent or a parent id that yields nothing.
\<close>

lemma getIterationHistory_lineage:
  assumes "st ident = Some it" and "lineage st it xs"
  shows "getIterationHistory st ident = Some (map Own xs) \<and>
         last xs = it \<and>
         (or_null_string (parentId (hd xs)) = None \<or>
          (\<exists>p. or_null_string (parentId (hd xs)) = Some p \<and> store_get st p = None)) \<and>
         (\<forall>j. Suc j < length xs \<longrightarrow>
            (\<exists>p. or_null_string (parentId (xs ! Suc j)) = Some p \<and> st p = Some (xs ! j)))"
proof -
  from assms(1) have "getIterationHistory st ident = history_walk st (Some (Own it)) []"
    by (simp add: getIterationHistory_def store_get_def)
  with history_walk_lineage [OF assms(2), of "[]"] lineage_shape [OF assms(2)]
  show ?thesis by simp
qed

lemma getIterationHistory_two_generations:
  "getIterationHistory [demo_parent_id \<mapsto> demo_parent, demo_id \<mapsto> demo_child] demo_id =
     Some [Own demo_parent, Own demo_child]"
proof -
  let ?st = "[demo_parent_id \<mapsto> demo_parent, demo_id \<mapsto> demo_child]"
  have reg: "?st demo_id = Some demo_child" by simp
  have "lineage ?st demo_parent [demo_parent]"
    by (rule lineage.root) (simp add: demo_parent_def or_null_string_def)
  then have "lineage ?st demo_child ([demo_parent] @ [demo_child])"
    by (rule lineage.child [where p = demo_parent_id and q = demo_parent, rotated 2])
       (simp_all add: demo_child_def or_null_string_def ids_differ
          is_uuid_nonempty [OF is_uuid_demo_parent_id])
  then have lin: "lineage ?st demo_child [demo_parent, demo_child]" by simp
  from getIterationHistory_lineage [OF reg lin] show ?thesis by simp
qed

text \<open>
  Claim C5: for every registered id, \<^verbatim>\<open>getIterationHistory(id)\<close> returns the parent
  chain, root first, obtained by following \<^verbatim>\<open>parentId\<close>, and stops where a parent
  id is missing from the registry.  The code does not do so for an iteration whose
  request named \<^verbatim>\<open>"constructor"\<close> as parent: that id is missing from the registry,
  but the read \<^verbatim>\<open>iterationStore["constructor"]\<close> yields the inherited member of
  \<^verbatim>\<open>Object.prototype\<close>, and the history of the new iteration is that member
  followed by the iteration, not the iteration alone.
\<close>

theorem getIterationHistory_inherited_parent:
  "fst (snd (performRecursiveRewrite (demo_env None) Map.empty inherited_parent_request None)) =
     [demo_id \<mapsto> inherited_child] \<and>
   getIterationHistory [demo_id \<mapsto> inherited_child] demo_id =
     Some [Inherited (js ''constructor''), Own inherited_child]"
proof -
  have c: "js ''constructor'' \<in> set (map js object_prototype_keys)" "js ''constructor'' \<noteq> []"
    by (simp_all add: object_prototype_keys_def js_def)
  have ne: "js ''constructor'' \<noteq> demo_id"
    using uuid_not_inherited [OF is_uuid_demo_id] c(1) by auto
  have "fst (snd (performRecursiveRewrite (demo_env None) Map.empty inherited_parent_request
      None)) = [demo_id \<mapsto> inherited_child]"
    using c
    by (simp add: run_simps demo_simps inherited_parent_request_def inherited_child_def
        countWords_short)
       (simp add: countWords_def js_trim_def js_def is_ws_def stored_version.simps
        numeral_3_eq_3 [symmetric])
  moreover have "getIterationHistory [demo_id \<mapsto> inherited_child] demo_id =
     Some [Inherited (js ''constructor''), Own inherited_child]"
    using c ne
    by (simp add: getIterationHistory_def store_get_def history_walk.simps or_null_string_def
        inherited_child_def)
  ultimately show ?thesis by simp
qed

section \<open>The chunk loop\<close>

text \<open>
  The stitching stage is announced, and the stitching call made, only after the loop
  over the chunks: a run in which either has happened has made every chunk call and
  started every pacing timer.
\<close>

lemma stitching_note_events:
  "ph \<noteq> js ''stitching'' \<Longrightarrow> \<forall>ev\<in>set (note_events obs ph msg p). \<not> stitching_event ev"
  by (simp add: note_events_def split: option.splits)

lemma stitching_loop_events: "\<forall>ev\<in>set (loop_events obs chunks lc i). \<not> stitching_event ev"
  by (auto simp: loop_events_def chunk_events_def note_events_def js_def
      split: option.splits if_splits)

lemma prefix_empty_marks:
  "prefix us ys \<Longrightarrow> List.map_filter f ys = [] \<Longrightarrow> List.map_filter f us = []"
  by (auto simp: prefix_def map_filter_append)

lemma marks_after_loop:
  assumes "\<not> countWords (req_text request) < SHORT_TEXT_THRESHOLD"
      and "smartChunk env (req_text request) = Inr chunks"
      and "prefix xs (expected_events env request obs)"
      and "\<exists>ev\<in>set xs. stitching_event ev"
  shows "List.map_filter pacing_mark xs = intersperse (Pause 1500) (map Call [0..<length chunks])"
proof (cases "length_config_of env request")
  case (Inl e)
  with assms(3) have "prefix xs (note_events obs (js ''initializing'')
       (js ''Starting recursive objection-proof rewrite...'') 0)"
    by (simp add: expected_events_def)
  with assms(4) stitching_note_events [of "js ''initializing''" obs] show ?thesis
    by (auto simp: js_def dest: prefix_member)
next
  case (Inr lc)
  let ?P = "note_events obs (js ''initializing'')
       (js ''Starting recursive objection-proof rewrite...'') 0 @
     note_events obs (js ''skeleton'') (js ''Extracting global skeleton for coherence...'') 10 @
     [ExtractSkeleton, Wrote Processing Processing] @
     note_events obs (js ''chunking'') (js ''Chunking text for processing...'') 20 @
     loop_events obs chunks lc 0"
  let ?Q = "note_events obs (js ''stitching'') (js ''Running global consistency check...'') 85 @
     [Stitch] @
     note_events obs (js ''finalizing'') (js ''Finalizing output...'') 95 @
     [Wrote Processing Processing, Wrote Processing Processing]"
  from Inr assms(1,2) have e: "expected_events env request obs = ?P @ ?Q"
    by (simp add: expected_events_def chunked_events_def chunks_of_def)
  have noP: "\<forall>ev\<in>set ?P. \<not> stitching_event ev"
    using stitching_note_events [of "js ''initializing''" obs]
      stitching_note_events [of "js ''skeleton''" obs]
      stitching_note_events [of "js ''chunking''" obs]
      stitching_loop_events [of obs chunks lc 0]
    by (auto simp: js_def)
  have mP: "List.map_filter pacing_mark ?P =
      intersperse (Pause 1500) (map Call [0..<length chunks])"
    by (simp add: map_filter_append marks_loop_events List.map_filter_simps)
  have mQ: "List.map_filter pacing_mark ?Q = []"
    by (simp add: map_filter_append List.map_filter_simps)
  from assms(3) e have "prefix xs ?P \<or> (\<exists>us. xs = ?P @ us \<and> prefix us ?Q)"
    by (simp only: prefix_append)
  then show ?thesis
  proof
    assume "prefix xs ?P"
    with assms(4) noP show ?thesis by (blast dest: prefix_member)
  next
    assume "\<exists>us. xs = ?P @ us \<and> prefix us ?Q"
    then obtain us where us: "xs = ?P @ us" "prefix us ?Q" by blast
    from prefix_empty_marks [OF us(2) mQ] have "List.map_filter pacing_mark us = []" .
    with us(1) mP show ?thesis by (simp only: map_filter_append) simp
  qed
qed

text \<open>
  Claim C6, as stated for every chunked run, fails on a run that is aborted: with five
  chunks of which the third throws, two pacing timers have been started, not four.
\<close>

theorem pacing_count_counterexample:
  "1500 \<le> countWords (req_text long_request) \<and>
   smartChunk (demo_env (Some 2)) (req_text long_request) = Inr demo_chunks \<and>
   length demo_chunks = 5 \<and>
   length (filter sleep_event (snd (snd (performRecursiveRewrite (demo_env (Some 2)) Map.empty
      long_request (Some quiet_observer))))) = 2"
proof -
  have "1500 \<le> countWords (req_text long_request)"
    by (simp add: long_request_def countWords_long_text)
  moreover have "smartChunk (demo_env (Some 2)) (req_text long_request) = Inr demo_chunks"
    by (simp add: demo_env_def)
  moreover have "length demo_chunks = 5"
    by (simp add: demo_chunks_def)
  moreover have "length (filter sleep_event (snd (snd (performRecursiveRewrite
      (demo_env (Some 2)) Map.empty long_request (Some quiet_observer))))) = 2"
    by (simp add: demo_failing_trace)
  ultimately show ?thesis by simp
qed

text \<open>
  Claim C6, amended: in every chunked run the chunk calls and the pacing timers occur
  as an initial part of the sequence call 0, timer, call 1, timer, ..., call
  \<open>numChunks - 1\<close>, every timer being one of 1500 milliseconds; in a run that
  reaches the stitching stage (the stage is announced or the stitching call is made),
  and so in every run that succeeds, they are the whole sequence, so that a timer
  stands between every two consecutive calls and none after the last, and there are
  \<open>numChunks - 1\<close> timers (none when there is no chunk).
\<close>

theorem pacing_between_chunks:
  assumes "1500 \<le> countWords (req_text request)"
      and "performRecursiveRewrite env st request onProgress = (out, st', tr)"
      and "smartChunk env (req_text request) = Inr chunks"
  shows "prefix (List.map_filter pacing_mark tr)
           (intersperse (Pause 1500) (map Call [0..<length chunks])) \<and>
         ((\<exists>res. out = Inr res \<and> success res) \<or> (\<exists>ev\<in>set tr. stitching_event ev) \<longrightarrow>
            List.map_filter pacing_mark tr =
              intersperse (Pause 1500) (map Call [0..<length chunks]) \<and>
            length (filter sleep_event tr) = length chunks - 1)"
proof -
  from assms(1) have long: "\<not> countWords (req_text request) < SHORT_TEXT_THRESHOLD"
    by (simp add: SHORT_TEXT_THRESHOLD_def)
  note m = marks_expected_events [OF long assms(3), of onProgress]
  from run_events [OF assms(2)] obtain xs ys where
    f: "tr = Created Processing # xs @ ys"
       "prefix xs (expected_events env request onProgress)"
       "ys = [Wrote Processing Completed] \<or> ys = [Wrote Processing Failed, Wrote Failed Failed]"
       "(\<exists>res. out = Inr res \<and> success res) \<longrightarrow> xs = expected_events env request onProgress"
    by blast
  from f(1,3) have tr: "List.map_filter pacing_mark tr = List.map_filter pacing_mark xs"
    by (auto simp: map_filter_append List.map_filter_simps)
  from map_filter_prefix [OF f(2), of pacing_mark] m tr
  have part: "prefix (List.map_filter pacing_mark tr)
           (intersperse (Pause 1500) (map Call [0..<length chunks]))"
    by (auto intro: prefix_order.trans)
  have whole: "List.map_filter pacing_mark tr =
      intersperse (Pause 1500) (map Call [0..<length chunks])"
    if "(\<exists>res. out = Inr res \<and> success res) \<or> (\<exists>ev\<in>set tr. stitching_event ev)"
    using that
  proof
    assume "\<exists>res. out = Inr res \<and> success res"
    then obtain res where r: "out = Inr res" "success res" by blast
    from perform_success [OF assms(2) [unfolded r(1)] r(2)] obtain lc where
      "length_config_of env request = Inr lc"
      "tr = Created Processing # expected_events env request onProgress @
              [Wrote Processing Completed]"
      by blast
    with m show ?thesis
      by (simp add: map_filter_append List.map_filter_simps)
  next
    assume "\<exists>ev\<in>set tr. stitching_event ev"
    with f(1,3) have "\<exists>ev\<in>set xs. stitching_event ev" by auto
    from marks_after_loop [OF long assms(3) f(2) this] tr show ?thesis by simp
  qed
  have "length (filter sleep_event tr) = length chunks - 1"
    if "(\<exists>res. out = Inr res \<and> success res) \<or> (\<exists>ev\<in>set tr. stitching_event ev)"
    by (simp only: sleeps_are_pauses whole [OF that] pauses_intersperse) simp
  with part whole show ?thesis by blast
qed

theorem pacing_between_chunks_witness:
  "1500 \<le> countWords (req_text long_request) \<and>
   smartChunk (demo_env None) (req_text long_request) = Inr demo_chunks \<and>
   length demo_chunks = 5 \<and>
   (\<exists>res. fst (performRecursiveRewrite (demo_env None) Map.empty long_request
                  (Some quiet_observer)) = Inr res \<and> success res) \<and>
   List.map_filter pacing_mark (snd (snd (performRecursiveRewrite (demo_env None) Map.empty
      long_request (Some quiet_observer)))) =
     [Call 0, Pause 1500, Call 1, Pause 1500, Call 2, Pause 1500, Call 3, Pause 1500, Call 4] \<and>
   length (filter sleep_event (snd (snd (performRecursiveRewrite (demo_env None) Map.empty
      long_request (Some quiet_observer))))) = 4 \<and>
   (\<exists>res. fst (performRecursiveRewrite (demo_env None) Map.empty long_request
                  (Some failing_observer)) = Inr res \<and> success res = False) \<and>
   (\<exists>ev\<in>set (snd (snd (performRecursiveRewrite (demo_env None) Map.empty long_request
                  (Some failing_observer)))). stitching_event ev) \<and>
   length (filter sleep_event (snd (snd (performRecursiveRewrite (demo_env None) Map.empty
      long_request (Some failing_observer))))) = 4"
proof -
  have big: "1500 \<le> countWords (req_text long_request)"
    by (simp add: long_request_def countWords_long_text)
  have ok: "\<exists>res. fst (performRecursiveRewrite (demo_env None) Map.empty long_request
                  (Some quiet_observer)) = Inr res \<and> success res"
    by (simp add: demo_long_result)
  have ko: "\<exists>res. fst (performRecursiveRewrite (demo_env None) Map.empty long_request
                  (Some failing_observer)) = Inr res \<and> success res = False"
    by (simp add: demo_observer_result)
  have reached: "\<exists>ev\<in>set (snd (snd (performRecursiveRewrite (demo_env None) Map.empty
      long_request (Some failing_observer)))). stitching_event ev"
    by (simp add: demo_observer_trace)
  have chunks: "smartChunk (demo_env None) (req_text long_request) = Inr demo_chunks"
    by (simp add: demo_env_def)
  have five: "length demo_chunks = 5" "[0..<5] = [0, 1, 2, 3, 4]"
    by (simp_all add: demo_chunks_def upt_rec)
  from pacing_between_chunks [OF big
      run_tuple [of "demo_env None" Map.empty long_request "Some quiet_observer"] chunks]
    pacing_between_chunks [OF big
      run_tuple [of "demo_env None" Map.empty long_request "Some failing_observer"] chunks]
    big ok ko reached chunks five
  show ?thesis
    by simp
qed

text \<open>
  A chunk call that is made decides the run when it throws: the call ends as the
  \<^verbatim>\<open>catch\<close> block ends for the value thrown by that call.
\<close>

lemma chunk_call_decides:
  assumes "performRecursiveRewrite env st request obs = (out, st', tr)"
      and "Reconstruct txt j n b \<in> set tr"
      and "length_config_of env request = Inr lc"
  shows "\<exists>sk. extractGlobalSkeleton env (req_text request)
                 (or_null_string (req_customInstructions request)) = Inr sk \<and>
           (\<forall>e. reconstructChunkConstrained env txt j n sk b lc = Inl e \<longrightarrow>
              (\<exists>it. st' (uuidv4 env) = Some it \<and>
                 out = (case error_message e of
                          Inl t \<Rightarrow> Inl t
                        | Inr m \<Rightarrow> Inr \<lparr>success = False, iteration = it,
                                         processingStats = None, error = Some m\<rparr>)))"
  using assms(1)
proof (cases rule: perform_cases)
  case (returned res s)
  from assms(2) returned(4) have "Reconstruct txt j n b \<in> set (events s)" by simp
  from try_block_chunk_throw [OF returned(1) _ assms(3) this]
  show ?thesis by auto
next
  case (caught e' s)
  from assms(2) caught(4) have "Reconstruct txt j n b \<in> set (events s)" by simp
  from try_block_chunk_throw [OF caught(1) _ assms(3) this] caught(2,3)
  show ?thesis by auto
qed

lemma reconstruct_means_chunked:
  assumes "Reconstruct txt i n b \<in> set (expected_events env request obs)"
  shows "\<not> countWords (req_text request) < SHORT_TEXT_THRESHOLD"
  using assms
  by (auto simp: expected_events_def short_events_def split: sum.splits if_splits)

text \<open>
  Claim C7: in every chunked run, the word budget passed to the chunk reconstruction
  of any chunk is \<^verbatim>\<open>Math.ceil(lengthConfig.targetMid / numChunks)\<close>, the same for
  every chunk whatever its size; the call for chunk \<open>i\<close> receives the text of that
  chunk, its index, the number of chunks, the skeleton and the length configuration.
  The budget is the one that the collaborator is called with: when the call with this
  budget throws, the run ends by that throw, and in a run that succeeds the pairs
  handed to the stitching are the results of the calls with this budget, chunk by
  chunk.
\<close>

theorem chunk_budget_uniform:
  assumes "performRecursiveRewrite env st request onProgress = (out, st', tr)"
      and "Reconstruct txt i n b \<in> set tr"
  shows "\<exists>lc sk chunks.
           length_config_of env request = Inr lc \<and>
           extractGlobalSkeleton env (req_text request)
             (or_null_string (req_customInstructions request)) = Inr sk \<and>
           smartChunk env (req_text request) = Inr chunks \<and>
           n = length chunks \<and> i < n \<and> txt = chunk_text (chunks ! i) \<and>
           b = js_ceil (targetMid lc / real n) \<and>
           (\<forall>e. reconstructChunkConstrained env txt i n sk b lc = Inl e \<longrightarrow>
              (\<exists>it. st' (uuidv4 env) = Some it \<and>
                 out = (case error_message e of
                          Inl t \<Rightarrow> Inl t
                        | Inr m \<Rightarrow> Inr \<lparr>success = False, iteration = it,
                                         processingStats = None, error = Some m\<rparr>))) \<and>
           (\<forall>res. out = Inr res \<and> success res \<longrightarrow>
              (\<exists>processed stitch.
                 list_all2
                   (\<lambda>k p. \<exists>r. reconstructChunkConstrained env (chunk_text (chunks ! k)) k n sk
                                 b lc = Inr r \<and>
                               p = (rc_outputText r, rc_delta r))
                   [0..<n] processed \<and>
                 stitchAndValidate env sk processed = Inr stitch \<and>
                 outputText (iteration res) = finalOutput stitch))"
proof -
  note ex = reconstruct_in_run [OF assms]
  from reconstruct_in_expected_events [OF ex] obtain lc chunks where
    a: "length_config_of env request = Inr lc" "smartChunk env (req_text request) = Inr chunks"
       "n = length chunks" "i < n" "txt = chunk_text (chunks ! i)"
       "b = js_ceil (targetMid lc / real n)"
    by (auto simp: chunk_budget_def)
  from chunk_call_decides [OF assms a(1)] obtain sk where
    s: "extractGlobalSkeleton env (req_text request)
          (or_null_string (req_customInstructions request)) = Inr sk"
       "\<forall>e. reconstructChunkConstrained env txt i n sk b lc = Inl e \<longrightarrow>
              (\<exists>it. st' (uuidv4 env) = Some it \<and>
                 out = (case error_message e of
                          Inl t \<Rightarrow> Inl t
                        | Inr m \<Rightarrow> Inr \<lparr>success = False, iteration = it,
                                         processingStats = None, error = Some m\<rparr>))"
    by blast
  have "\<exists>processed stitch.
                 list_all2
                   (\<lambda>k p. \<exists>r. reconstructChunkConstrained env (chunk_text (chunks ! k)) k n sk
                                 b lc = Inr r \<and>
                               p = (rc_outputText r, rc_delta r))
                   [0..<n] processed \<and>
                 stitchAndValidate env sk processed = Inr stitch \<and>
                 outputText (iteration res) = finalOutput stitch"
    if r: "out = Inr res" "success res" for res
  proof -
    from perform_success [OF assms(1) [unfolded r(1)] r(2)] reconstruct_means_chunked [OF ex] a(1)
    have "chunked_outcome env request (countWords (req_text request)) lc
            (new_iteration env st request) res"
      by auto
    with s(1) a(2) obtain processed sti where
      c: "list_all2 (rebuilt env chunks sk lc) [0..<length chunks] processed"
         "stitchAndValidate env sk processed = Inr sti"
         "outputText (iteration res) = finalOutput sti"
      unfolding chunked_outcome_def by auto
    have "rebuilt env chunks sk lc k p \<Longrightarrow>
        \<exists>r. reconstructChunkConstrained env (chunk_text (chunks ! k)) k n sk b lc = Inr r \<and>
             p = (rc_outputText r, rc_delta r)" for k p
      using a(3,6) by (auto simp: rebuilt_def reconstruct_call_def chunk_budget_def
          split: sum.splits)
    with c(1) have "list_all2
        (\<lambda>k p. \<exists>r. reconstructChunkConstrained env (chunk_text (chunks ! k)) k n sk b lc = Inr r \<and>
                    p = (rc_outputText r, rc_delta r))
        [0..<length chunks] processed"
      by (rule list_all2_mono)
    with c(2,3) a(3) show ?thesis by blast
  qed
  with a s show ?thesis by blast
qed

theorem chunk_budget_uniform_witness:
  "Reconstruct (js ''three'') 2 5 600 \<in>
     set (snd (snd (performRecursiveRewrite (demo_env (Some 2)) Map.empty long_request
                      (Some quiet_observer)))) \<and>
   length_config_of (demo_env (Some 2)) long_request = Inr demo_config \<and>
   extractGlobalSkeleton (demo_env (Some 2)) (req_text long_request)
     (or_null_string (req_customInstructions long_request)) = Inr 7 \<and>
   smartChunk (demo_env (Some 2)) (req_text long_request) = Inr demo_chunks \<and>
   length demo_chunks = 5 \<and> chunk_text (demo_chunks ! 2) = js ''three'' \<and>
   js_ceil (targetMid demo_config / real (5::nat)) = 600 \<and>
   reconstructChunkConstrained (demo_env (Some 2)) (js ''three'') 2 5 7 600 demo_config =
     Inl (Thrown (Some (js ''overloaded''))) \<and>
   (\<exists>it. fst (snd (performRecursiveRewrite (demo_env (Some 2)) Map.empty long_request
                    (Some quiet_observer))) demo_id = Some it \<and>
      fst (performRecursiveRewrite (demo_env (Some 2)) Map.empty long_request
             (Some quiet_observer)) =
        Inr \<lparr>success = False, iteration = it, processingStats = None,
              error = Some (js ''overloaded'')\<rparr>)"
proof -
  have m: "Reconstruct (js ''three'') 2 5 600 \<in>
     set (snd (snd (performRecursiveRewrite (demo_env (Some 2)) Map.empty long_request
                      (Some quiet_observer))))"
    by (simp add: demo_failing_trace)
  have c: "length_config_of (demo_env (Some 2)) long_request = Inr demo_config"
      "extractGlobalSkeleton (demo_env (Some 2)) (req_text long_request)
         (or_null_string (req_customInstructions long_request)) = Inr 7"
      "smartChunk (demo_env (Some 2)) (req_text long_request) = Inr demo_chunks"
      "length demo_chunks = 5" "chunk_text (demo_chunks ! 2) = js ''three''"
      "js_ceil (targetMid demo_config / real (5::nat)) = 600"
      "reconstructChunkConstrained (demo_env (Some 2)) (js ''three'') 2 5 7 600 demo_config =
         Inl (Thrown (Some (js ''overloaded'')))"
      "uuidv4 (demo_env (Some 2)) = demo_id"
    by (simp_all add: length_config_of_def demo_env_def demo_config_def demo_chunks_def
        js_ceil_def)
  from chunk_budget_uniform [OF
      run_tuple [of "demo_env (Some 2)" Map.empty long_request "Some quiet_observer"] m]
  obtain lc sk chunks where
    g: "length_config_of (demo_env (Some 2)) long_request = Inr lc"
       "extractGlobalSkeleton (demo_env (Some 2)) (req_text long_request)
         (or_null_string (req_customInstructions long_request)) = Inr sk"
       "\<forall>e. reconstructChunkConstrained (demo_env (Some 2)) (js ''three'') 2 5 sk 600 lc = Inl e \<longrightarrow>
              (\<exists>it. fst (snd (performRecursiveRewrite (demo_env (Some 2)) Map.empty long_request
                    (Some quiet_observer))) (uuidv4 (demo_env (Some 2))) = Some it \<and>
                 fst (performRecursiveRewrite (demo_env (Some 2)) Map.empty long_request
                    (Some quiet_observer)) =
                   (case error_message e of
                          Inl t \<Rightarrow> Inl t
                        | Inr m \<Rightarrow> Inr \<lparr>success = False, iteration = it,
                                         processingStats = None, error = Some m\<rparr>))"
    by blast
  from g(1,2) c(1,2) have "lc = demo_config" "sk = 7" by simp_all
  with g(3) c(7) have "\<exists>it. fst (snd (performRecursiveRewrite (demo_env (Some 2)) Map.empty
        long_request (Some quiet_observer))) (uuidv4 (demo_env (Some 2))) = Some it \<and>
      fst (performRecursiveRewrite (demo_env (Some 2)) Map.empty long_request
             (Some quiet_observer)) =
        (case error_message (Thrown (Some (js ''overloaded''))) of
                          Inl t \<Rightarrow> Inl t
                        | Inr m \<Rightarrow> Inr \<lparr>success = False, iteration = it,
                                         processingStats = None, error = Some m\<rparr>)"
    by blast
  then have "\<exists>it. fst (snd (performRecursiveRewrite (demo_env (Some 2)) Map.empty long_request
                    (Some quiet_observer))) demo_id = Some it \<and>
      fst (performRecursiveRewrite (demo_env (Some 2)) Map.empty long_request
             (Some quiet_observer)) =
        Inr \<lparr>success = False, iteration = it, processingStats = None,
              error = Some (js ''overloaded'')\<rparr>"
    by (simp add: c(8) or_null_string_def js_def)
  with m c show ?thesis by simp
qed



section \<open>The status of an iteration\<close>

text \<open>
  Claim C9: an iteration is created with status processing.  The statuses that the
  iteration object has at its creation and after each assignment to one of its fields
  are, in order, processing one or more times and then the final status one or more
  times: completed when the call succeeds, failed otherwise.  So the status changes
  once, from processing to a final status, and never out of completed or failed or
  back to processing.  The iteration is registered with the final status; the call
  leaves every other registered iteration as it is, and clearing the registry removes
  every entry.
\<close>

theorem status_lifecycle:
  assumes "performRecursiveRewrite env st request onProgress = (out, st', tr)"
      and "is_uuid (uuidv4 env)"
      and "st (uuidv4 env) = None"
  shows "status (new_iteration env st request) = Processing \<and>
         (\<exists>final k j.
            final = (if \<exists>res. out = Inr res \<and> success res then Completed else Failed) \<and>
            status_trace tr = replicate (Suc k) Processing @ replicate (Suc j) final \<and>
            remdups_adj (status_trace tr) = [Processing, final] \<and>
            (\<exists>it. st' (uuidv4 env) = Some it \<and> status it = final \<and>
                  (\<forall>res. out = Inr res \<longrightarrow> iteration res = it))) \<and>
         (\<forall>k it. st k = Some it \<longrightarrow> st' k = Some it) \<and>
         (\<forall>k. clearIterationStore st' k = None)"
proof -
  define final where
    "final = (if \<exists>res. out = Inr res \<and> success res then Completed else Failed)"
  have created: "status (new_iteration env st request) = Processing"
    by simp
  have cleared: "\<forall>k. clearIterationStore st' k = None"
    by (auto simp: clearIterationStore_def)
  from perform_registers [OF assms(1)] obtain it where
    reg: "st' = st(uuidv4 env \<mapsto> it)" "\<forall>res. out = Inr res \<longrightarrow> iteration res = it"
         "status it = final"
    unfolding final_def by blast
  from reg(1) assms(3) have others: "\<forall>k it. st k = Some it \<longrightarrow> st' k = Some it"
    by auto
  from run_events [OF assms(1)] obtain xs ys where
    f: "tr = Created Processing # xs @ ys"
       "prefix xs (expected_events env request onProgress)"
       "(\<exists>res. out = Inr res \<and> success res) \<longrightarrow> ys = [Wrote Processing Completed]"
       "\<not> (\<exists>res. out = Inr res \<and> success res) \<longrightarrow>
          ys = [Wrote Processing Failed, Wrote Failed Failed]"
    by blast
  from status_expected_events obtain m where
    "status_trace (expected_events env request onProgress) = replicate m Processing"
    by blast
  with status_trace_prefix [OF f(2)]
  have "prefix (status_trace xs) (replicate m Processing)" by simp
  from prefix_replicate [OF this] obtain k' where
    k: "status_trace xs = replicate k' Processing" by blast
  have "\<exists>j. status_trace ys = Processing # replicate (Suc j) final"
  proof (cases "\<exists>res. out = Inr res \<and> success res")
    case True
    with f(3) have "status_trace ys = Processing # replicate (Suc 0) final"
      by (simp add: final_def)
    then show ?thesis by blast
  next
    case False
    with f(4) have "status_trace ys = Processing # replicate (Suc (Suc (Suc 0))) final"
      by (simp add: final_def)
    then show ?thesis by blast
  qed
  then obtain j where j: "status_trace ys = Processing # replicate (Suc j) final" by blast
  from f(1) k j have w: "status_trace tr =
      replicate (Suc (Suc k')) Processing @ replicate (Suc j) final"
    by (simp add: replicate_app_Cons_same)
  have "final \<noteq> Processing" by (simp add: final_def)
  then have "remdups_adj
      (Processing # replicate (Suc k') Processing @ final # replicate j final) =
      [Processing, final]"
    by (intro remdups_adj_run) simp
  with w have r: "remdups_adj (status_trace tr) = [Processing, final]"
    by simp
  from w r reg have "\<exists>final k j.
            final = (if \<exists>res. out = Inr res \<and> success res then Completed else Failed) \<and>
            status_trace tr = replicate (Suc k) Processing @ replicate (Suc j) final \<and>
            remdups_adj (status_trace tr) = [Processing, final] \<and>
            (\<exists>it. st' (uuidv4 env) = Some it \<and> status it = final \<and>
                  (\<forall>res. out = Inr res \<longrightarrow> iteration res = it))"
    unfolding final_def [symmetric]
    by (intro exI [of _ final] exI [of _ "Suc k'"] exI [of _ j]) (simp add: final_def)
  with created others cleared show ?thesis by blast
qed

theorem status_lifecycle_witness:
  "is_uuid (uuidv4 (demo_env None)) \<and>
   [demo_parent_id \<mapsto> demo_parent] (uuidv4 (demo_env None)) = None \<and>
   (\<exists>res. fst (performRecursiveRewrite (demo_env None)
      [demo_parent_id \<mapsto> demo_parent] child_request None) = Inr res \<and> success res) \<and>
   snd (snd (performRecursiveRewrite (demo_env None)
      [demo_parent_id \<mapsto> demo_parent] child_request None)) =
     [Created Processing, Generate, Wrote Processing Processing, Wrote Processing Processing,
      Wrote Processing Completed] \<and>
   status_trace (snd (snd (performRecursiveRewrite (demo_env None)
      [demo_parent_id \<mapsto> demo_parent] child_request None))) =
     [Processing, Processing, Processing, Processing, Processing, Processing, Completed] \<and>
   remdups_adj (status_trace (snd (snd (performRecursiveRewrite (demo_env None)
      [demo_parent_id \<mapsto> demo_parent] child_request None)))) = [Processing, Completed] \<and>
   fst (snd (performRecursiveRewrite (demo_env None)
      [demo_parent_id \<mapsto> demo_parent] child_request None)) demo_parent_id = Some demo_parent \<and>
   (\<exists>res. fst (performRecursiveRewrite (demo_env (Some 2)) Map.empty long_request None) =
      Inr res \<and> success res = False) \<and>
   status_trace (snd (snd (performRecursiveRewrite (demo_env (Some 2))
      Map.empty long_request None))) =
     [Processing, Processing, Processing, Processing, Failed, Failed, Failed] \<and>
   remdups_adj (status_trace (snd (snd (performRecursiveRewrite (demo_env (Some 2))
      Map.empty long_request None)))) = [Processing, Failed]"
proof -
  let ?st = "[demo_parent_id \<mapsto> demo_parent]"
  have u: "is_uuid (uuidv4 (demo_env f))" for f
    by (simp add: demo_env_def is_uuid_demo_id)
  have fresh: "?st (uuidv4 (demo_env None)) = None"
    by (simp add: demo_env_def ids_differ ids_differ [symmetric])
  have fresh': "(Map.empty :: nat store) (uuidv4 (demo_env (Some 2))) = None"
    by simp
  have ok: "\<exists>res. fst (performRecursiveRewrite (demo_env None) ?st child_request None) = Inr res \<and>
      success res"
    by (simp add: run_simps demo_simps child_request_def countWords_def js_def is_ws_def)
  have ko: "\<exists>res. fst (performRecursiveRewrite (demo_env (Some 2)) Map.empty long_request None) =
      Inr res \<and> success res = False"
    by (simp add: run_simps demo_simps countWords_long_text chunk_loop.simps Let_def)
  have w1: "snd (snd (performRecursiveRewrite (demo_env None) ?st child_request None)) =
     [Created Processing, Generate, Wrote Processing Processing, Wrote Processing Processing,
      Wrote Processing Completed]"
    by (simp add: run_simps demo_simps child_request_def countWords_def js_def is_ws_def)
  have w2: "status_trace (snd (snd (performRecursiveRewrite (demo_env (Some 2))
      Map.empty long_request None))) =
     [Processing, Processing, Processing, Processing, Failed, Failed, Failed]"
    by (simp add: run_simps demo_simps countWords_long_text chunk_loop.simps Let_def)
  from status_lifecycle [OF run_tuple [of "demo_env None" ?st child_request None] u [of None] fresh]
       status_lifecycle [OF run_tuple [of "demo_env (Some 2)" Map.empty long_request None]
         u [of "Some 2"] fresh']
       ok ko u [of None] fresh w1 w2
  show ?thesis by (simp add: ids_differ ids_differ [symmetric])
qed

section \<open>Reads of the store by keys that are not registered\<close>

text \<open>
  Claim C10: for every id that is not present in the registry,
  \<^verbatim>\<open>getIterationHistory(id)\<close> returns an empty sequence.  The code does not do so
  for the id \<^verbatim>\<open>"constructor"\<close>: on the empty registry the read
  \<^verbatim>\<open>iterationStore["constructor"]\<close> yields the inherited member of
  \<^verbatim>\<open>Object.prototype\<close>, the loop is entered once, and the result is a sequence of
  one element that is not an iteration.  (For an id for which the store yields
  nothing the result is empty: \<open>getIterationHistory_unresolved\<close>.)
\<close>

theorem getIterationHistory_unregistered_constructor:
  "getIterationHistory Map.empty (js ''constructor'') = Some [Inherited (js ''constructor'')]"
  by (simp add: getIterationHistory_def history_walk.simps store_get_def
      object_prototype_keys_def js_def or_null_string_def)

end
